theory Spec2Isabelle
  imports Complex_Main "HOL-Library.Word"
begin

section \<open>The audio engine of AirDAW (audio_engine.h, audio_engine.c)\<close>

text \<open>
  A shallow embedding of the engine: the data model of audio_engine.h and the functions of
  audio_engine.c.

  Conventions of the embedding.
  \<^item> A C \<open>float\<close> is modelled by the real number it stands for. The engine API and
    the callback as a whole are read in exact arithmetic: there the operations, \<open>sinf\<close>,
    \<open>cosf\<close> and \<open>sqrtf\<close> are exact and rounding is not modelled. The body of the track
    loop is read a second time in binary32 arithmetic, every operation rounded; what
    depends on the values of the samples and of the meters is stated there. An
    execution in which the C code divides by zero (and so leaves the finite numbers) is
    the error value \<open>Non_Finite\<close>.
  \<^item> A fixed-size C array is a list; an access outside the array, which C leaves
    undefined, is the error value \<open>Out_Of_Bounds\<close>.
  \<^item> \<open>int\<close> counters are \<open>int\<close> (no operation of the engine brings them near the
    32-bit limits); \<open>ma_uint32 frame_count\<close> is a \<open>32 word\<close>, and \<open>size_t\<close> has 64 bits.
  \<^item> The atomic flags are plain booleans: one callback runs at a time and the
    interleaving with the control thread is outside the embedding.
  \<^item> Logging (\<open>TraceLog\<close>, \<open>ma_log_post\<close>) has no effect on the engine state and is
    left out.
\<close>

subsection \<open>Constants\<close>

definition MAX_TRACKS :: int where "MAX_TRACKS = 16"
definition SAMPLE_RATE :: int where "SAMPLE_RATE = 48000"
definition CHANNELS :: int where "CHANNELS = 2"
definition BUFFER_SIZE :: int where "BUFFER_SIZE = 512"
definition MAX_EFFECTS_PER_TRACK :: int where "MAX_EFFECTS_PER_TRACK = 8"

text \<open>Modelled from the spec: \<open>MA_PI\<close>, a macro of the miniaudio header, which is not
  among the sources. The spec writes the phase increment as \<open>2\<pi>\<cdot>frequency/sample_rate\<close> and
  the pan angle as \<open>(pan+1)\<cdot>\<pi>/4\<close>.\<close>

definition MA_PI :: real where "MA_PI = pi"

text \<open>Modelled from the spec: \<open>ma_uint32\<close>, a type of the miniaudio header, which is not
  among the sources. The spec gives the frame count of the period callback as \<open>uint32\<close>.\<close>

type_synonym ma_uint32 = "32 word"

subsection \<open>Errors\<close>

datatype fault = Out_Of_Bounds | Non_Finite | Index_Wrap | Denormal

definition bind_result :: "fault + 'a \<Rightarrow> ('a \<Rightarrow> fault + 'b) \<Rightarrow> fault + 'b" where
  "bind_result m f = (case m of Inl e \<Rightarrow> Inl e | Inr x \<Rightarrow> f x)"

subsection \<open>Effects\<close>

datatype EffectType =
  EFFECT_NONE | EFFECT_GAIN | EFFECT_LOWPASS | EFFECT_HIGHPASS | EFFECT_DELAY | EFFECT_REVERB

text \<open>
  The parameters of an effect are an anonymous union of four structs of one, two, three
  and three floats. All members are floats laid out from the start of the union, so the
  union is three float slots and each named parameter is one of them:
  \<open>gain\<close>, \<open>cutoff\<close>, \<open>time_ms\<close> and \<open>room_size\<close> are slot 0; \<open>resonance\<close>,
  \<open>feedback\<close> and \<open>damping\<close> are slot 1; the two \<open>mix\<close> members are slot 2.
\<close>

record Effect =
  etype :: EffectType
  enabled :: bool
  slot0 :: real
  slot1 :: real
  slot2 :: real

abbreviation gain :: "Effect \<Rightarrow> real" where "gain \<equiv> slot0"
abbreviation cutoff :: "Effect \<Rightarrow> real" where "cutoff \<equiv> slot0"
abbreviation resonance :: "Effect \<Rightarrow> real" where "resonance \<equiv> slot1"
abbreviation time_ms :: "Effect \<Rightarrow> real" where "time_ms \<equiv> slot0"
abbreviation feedback :: "Effect \<Rightarrow> real" where "feedback \<equiv> slot1"
abbreviation delay_mix :: "Effect \<Rightarrow> real" where "delay_mix \<equiv> slot2"
abbreviation room_size :: "Effect \<Rightarrow> real" where "room_size \<equiv> slot0"
abbreviation damping :: "Effect \<Rightarrow> real" where "damping \<equiv> slot1"
abbreviation reverb_mix :: "Effect \<Rightarrow> real" where "reverb_mix \<equiv> slot2"

text \<open>How many parameters the struct of each kind declares in audio_engine.h.\<close>

fun param_count :: "EffectType \<Rightarrow> int" where
  "param_count EFFECT_NONE = 0"
| "param_count EFFECT_GAIN = 1"
| "param_count EFFECT_LOWPASS = 2"
| "param_count EFFECT_HIGHPASS = 2"
| "param_count EFFECT_DELAY = 3"
| "param_count EFFECT_REVERB = 3"

subsection \<open>Tracks and the engine\<close>

text \<open>
  \<open>peak_level[2]\<close> and \<open>rms_level[2]\<close> are pairs (index 0 the left channel, index 1 the
  right one). \<open>effects\<close> is the array of \<open>MAX_EFFECTS_PER_TRACK\<close> slots, of which the
  first \<open>effect_count\<close> are in use.
\<close>

record Track =
  name :: string
  volume :: real
  pan :: real
  mute :: bool
  solo :: bool
  armed :: bool
  frequency :: real
  phase :: real
  playing :: bool
  effects :: "Effect list"
  effect_count :: int
  peak_level :: "real \<times> real"
  rms_level :: "real \<times> real"

text \<open>
  The miniaudio device and log are opaque to the engine; the embedding keeps only whether
  each is initialised, and for the device whether it is started. The configuration holds
  the fields that \<open>audio_engine_init\<close> writes.
\<close>

datatype device_state = Device_Uninit | Device_Init | Device_Started
datatype log_state = Log_Uninit | Log_Init

record ma_device_config =
  format_f32 :: bool
  channels :: int
  sampleRate :: int
  periodSizeInFrames :: int

record AudioEngine =
  device :: device_state
  device_config :: ma_device_config
  log_handle :: log_state
  tracks :: "Track list"
  track_count :: int
  master_volume :: real
  master_peak :: "real \<times> real"
  master_rms :: "real \<times> real"
  engine_playing :: bool
  initialized :: bool

text \<open>The C types of the two arrays: sixteen tracks, eight effect slots in each.\<close>

definition track_wf :: "Track \<Rightarrow> bool" where
  "track_wf track \<longleftrightarrow> int (length (effects track)) = MAX_EFFECTS_PER_TRACK"

definition engine_wf :: "AudioEngine \<Rightarrow> bool" where
  "engine_wf engine \<longleftrightarrow>
     int (length (tracks engine)) = MAX_TRACKS \<and> list_all track_wf (tracks engine)"

subsection \<open>Engine API: lifecycle\<close>

text \<open>
  \<open>audio_engine_init\<close>. The outcomes of \<open>ma_device_init\<close> and \<open>ma_device_start\<close> are
  decided by the platform; they are the parameters \<open>init_ok\<close> and \<open>start_ok\<close>
  (\<open>True\<close> for \<open>MA_SUCCESS\<close>). The start is attempted only after a successful
  initialisation.
\<close>

definition audio_engine_init :: "bool \<Rightarrow> bool \<Rightarrow> AudioEngine \<Rightarrow> bool \<times> AudioEngine" where
  "audio_engine_init init_ok start_ok engine =
     (let e1 = engine\<lparr>master_volume := 0.75, track_count := 0, engine_playing := False\<rparr>;
          e2 = e1\<lparr>log_handle := Log_Init\<rparr>;
          e3 = e2\<lparr>device_config := \<lparr>format_f32 = True, channels = CHANNELS,
                                       sampleRate = SAMPLE_RATE, periodSizeInFrames = BUFFER_SIZE\<rparr>\<rparr>
      in if \<not> init_ok then (False, e3\<lparr>log_handle := Log_Uninit\<rparr>)
         else let e4 = e3\<lparr>device := Device_Init\<rparr>
              in if \<not> start_ok then (False, e4\<lparr>device := Device_Uninit, log_handle := Log_Uninit\<rparr>)
                 else (True, e4\<lparr>device := Device_Started, initialized := True\<rparr>))"

definition audio_engine_shutdown :: "AudioEngine \<Rightarrow> AudioEngine" where
  "audio_engine_shutdown engine =
     (if initialized engine
      then engine\<lparr>engine_playing := False, device := Device_Uninit, log_handle := Log_Uninit,
                  initialized := False\<rparr>
      else engine)"

subsection \<open>Engine API: tracks and effects\<close>

text \<open>
  \<open>audio_engine_add_track\<close>. \<open>snprintf\<close> into \<open>char name[64]\<close> stores at most 63
  characters of the argument and the terminator. The index written is \<open>track_count\<close>,
  which the guard bounds from above only; a negative count would write before the array.
  The meters and the effect slots of the new track are not touched.
\<close>

definition audio_engine_add_track ::
  "AudioEngine \<Rightarrow> string \<Rightarrow> real \<Rightarrow> fault + (int \<times> AudioEngine)" where
  "audio_engine_add_track engine nm freq =
     (if track_count engine \<ge> MAX_TRACKS then Inr (- 1, engine)
      else if track_count engine < 0 then Inl Out_Of_Bounds
      else
        let index = track_count engine;
            track = tracks engine ! nat index;
            track' = track\<lparr>name := take 63 nm, volume := 0.75, pan := 0, mute := False,
                            solo := False, armed := False, frequency := freq, phase := 0,
                            effect_count := 0, playing := False\<rparr>
        in Inr (index, engine\<lparr>track_count := index + 1,
                               tracks := (tracks engine)[nat index := track']\<rparr>))"

text \<open>\<open>audio_engine_add_effect\<close>: the slot is reused as it is, only the fields of the
  chosen kind are set.\<close>

definition audio_engine_add_effect :: "Track \<Rightarrow> EffectType \<Rightarrow> fault + Track" where
  "audio_engine_add_effect track ty =
     (if effect_count track \<ge> MAX_EFFECTS_PER_TRACK then Inr track
      else if effect_count track < 0 then Inl Out_Of_Bounds
      else
        let i = nat (effect_count track);
            effect = (effects track ! i)\<lparr>etype := ty, enabled := True\<rparr>;
            effect' =
              (case ty of
                 EFFECT_GAIN \<Rightarrow> effect\<lparr>slot0 := 1\<rparr>
               | EFFECT_LOWPASS \<Rightarrow> effect\<lparr>slot0 := 1000, slot1 := 1\<rparr>
               | EFFECT_HIGHPASS \<Rightarrow> effect\<lparr>slot0 := 1000, slot1 := 1\<rparr>
               | EFFECT_DELAY \<Rightarrow> effect\<lparr>slot0 := 250, slot1 := 0.3, slot2 := 0.5\<rparr>
               | EFFECT_REVERB \<Rightarrow> effect\<lparr>slot0 := 0.5, slot1 := 0.5, slot2 := 0.3\<rparr>
               | EFFECT_NONE \<Rightarrow> effect)
        in Inr (track\<lparr>effect_count := effect_count track + 1,
                      effects := (effects track)[i := effect']\<rparr>))"

text \<open>The loop of \<open>audio_engine_remove_effect\<close> that shifts the later effects down:
  \<open>for (i = effect_index; i < effect_count - 1; i++) effects[i] = effects[i + 1]\<close>.\<close>

function shift_effects :: "Effect list \<Rightarrow> int \<Rightarrow> int \<Rightarrow> fault + Effect list" where
  "shift_effects es i n =
     (if i < n - 1
      then (if i < 0 \<or> i + 1 \<ge> MAX_EFFECTS_PER_TRACK then Inl Out_Of_Bounds
            else shift_effects (es[nat i := es ! nat (i + 1)]) (i + 1) n)
      else Inr es)"
  by pat_completeness auto
termination
  by (relation "measure (\<lambda>(es, i, n). nat (n - i))") auto

declare shift_effects.simps [simp del]

definition audio_engine_remove_effect :: "Track \<Rightarrow> int \<Rightarrow> fault + Track" where
  "audio_engine_remove_effect track effect_index =
     (if effect_index < 0 \<or> effect_index \<ge> effect_count track then Inr track
      else bind_result (shift_effects (effects track) effect_index (effect_count track))
             (\<lambda>es. Inr (track\<lparr>effects := es, effect_count := effect_count track - 1\<rparr>)))"

definition audio_engine_toggle_effect :: "Track \<Rightarrow> int \<Rightarrow> fault + Track" where
  "audio_engine_toggle_effect track effect_index =
     (if effect_index < 0 \<or> effect_index \<ge> effect_count track then Inr track
      else if effect_index \<ge> MAX_EFFECTS_PER_TRACK then Inl Out_Of_Bounds
      else
        let i = nat effect_index; effect = effects track ! i
        in Inr (track\<lparr>effects := (effects track)[i := effect\<lparr>enabled := \<not> enabled effect\<rparr>]\<rparr>))"

definition audio_engine_set_effect_param :: "Effect \<Rightarrow> int \<Rightarrow> real \<Rightarrow> Effect" where
  "audio_engine_set_effect_param effect param_index v =
     (case etype effect of
        EFFECT_GAIN \<Rightarrow>
          (if param_index = 0 then effect\<lparr>slot0 := v\<rparr> else effect)
      | EFFECT_LOWPASS \<Rightarrow>
          (if param_index = 0 then effect\<lparr>slot0 := v\<rparr>
           else if param_index = 1 then effect\<lparr>slot1 := v\<rparr> else effect)
      | EFFECT_HIGHPASS \<Rightarrow>
          (if param_index = 0 then effect\<lparr>slot0 := v\<rparr>
           else if param_index = 1 then effect\<lparr>slot1 := v\<rparr> else effect)
      | EFFECT_DELAY \<Rightarrow>
          (if param_index = 0 then effect\<lparr>slot0 := v\<rparr>
           else if param_index = 1 then effect\<lparr>slot1 := v\<rparr>
           else if param_index = 2 then effect\<lparr>slot2 := v\<rparr> else effect)
      | EFFECT_REVERB \<Rightarrow>
          (if param_index = 0 then effect\<lparr>slot0 := v\<rparr>
           else if param_index = 1 then effect\<lparr>slot1 := v\<rparr>
           else if param_index = 2 then effect\<lparr>slot2 := v\<rparr> else effect)
      | EFFECT_NONE \<Rightarrow> effect)"


subsection \<open>Effect processing\<close>

definition process_gain_effect :: "real \<Rightarrow> Effect \<Rightarrow> real" where
  "process_gain_effect sample effect =
     (if \<not> enabled effect then sample else sample * gain effect)"

text \<open>The two filters take the state through a pointer; the embedding returns the output
  and the new state. \<open>cutoff + 1.0f\<close> is a divisor.\<close>

definition process_lowpass_effect :: "real \<Rightarrow> Effect \<Rightarrow> real \<Rightarrow> fault + (real \<times> real)" where
  "process_lowpass_effect sample effect state =
     (if \<not> enabled effect then Inr (sample, state)
      else if cutoff effect + 1 = 0 then Inl Non_Finite
      else
        let alpha = cutoff effect / (cutoff effect + 1);
            state' = alpha * sample + (1 - alpha) * state
        in Inr (state', state'))"

definition process_highpass_effect :: "real \<Rightarrow> Effect \<Rightarrow> real \<Rightarrow> fault + (real \<times> real)" where
  "process_highpass_effect sample effect state =
     (if \<not> enabled effect then Inr (sample, state)
      else if cutoff effect + 1 = 0 then Inl Non_Finite
      else
        let alpha = 1 / (cutoff effect + 1);
            output = sample - state;
            state' = state + alpha * output
        in Inr (output, state'))"

text \<open>
  The frame loop of a filter case of \<open>process_track_effects\<close>:
  \<open>for (f = 0; f < frame_count; f++) { left[f] = p(left[f], effect, &state_l);
  right[f] = p(right[f], effect, &state_r); }\<close>, with \<open>p\<close> one of the two filters. The
  lists hold the first \<open>frame_count\<close> samples of \<open>temp_left\<close> and \<open>temp_right\<close>, the only
  ones the callback reads or writes.
\<close>

fun filter_frames ::
  "(real \<Rightarrow> Effect \<Rightarrow> real \<Rightarrow> fault + (real \<times> real)) \<Rightarrow> Effect \<Rightarrow>
   real list \<Rightarrow> real list \<Rightarrow> real \<Rightarrow> real \<Rightarrow> fault + (real list \<times> real list \<times> real \<times> real)" where
  "filter_frames p effect (l # ls) (r # rs) sl sr =
     bind_result (p l effect sl) (\<lambda>(l', sl').
     bind_result (p r effect sr) (\<lambda>(r', sr').
     bind_result (filter_frames p effect ls rs sl' sr') (\<lambda>(ls', rs', sl'', sr'').
       Inr (l' # ls', r' # rs', sl'', sr''))))"
| "filter_frames p effect [] rs sl sr = Inr ([], [], sl, sr)"
| "filter_frames p effect ls [] sl sr = Inr ([], [], sl, sr)"

text \<open>The loop over the effects in use, on the two filter cells of the track.\<close>

fun apply_effects ::
  "Effect list \<Rightarrow> real list \<Rightarrow> real list \<Rightarrow> real \<Rightarrow> real \<Rightarrow>
   fault + (real list \<times> real list \<times> real \<times> real)" where
  "apply_effects [] left right sl sr = Inr (left, right, sl, sr)"
| "apply_effects (effect # es) left right sl sr =
     (case etype effect of
        EFFECT_GAIN \<Rightarrow>
          apply_effects es (map (\<lambda>s. process_gain_effect s effect) left)
                           (map (\<lambda>s. process_gain_effect s effect) right) sl sr
      | EFFECT_LOWPASS \<Rightarrow>
          bind_result (filter_frames process_lowpass_effect effect left right sl sr)
            (\<lambda>(left', right', sl', sr'). apply_effects es left' right' sl' sr')
      | EFFECT_HIGHPASS \<Rightarrow>
          bind_result (filter_frames process_highpass_effect effect left right sl sr)
            (\<lambda>(left', right', sl', sr'). apply_effects es left' right' sl' sr')
      | EFFECT_DELAY \<Rightarrow> apply_effects es left right sl sr
      | EFFECT_REVERB \<Rightarrow> apply_effects es left right sl sr
      | EFFECT_NONE \<Rightarrow> apply_effects es left right sl sr)"

text \<open>
  \<open>process_track_effects\<close>. The static arrays \<open>filter_state_l\<close> and \<open>filter_state_r\<close>
  (one cell per track slot, zero at program start) are the pair \<open>fs\<close>; the track uses
  the cells at \<open>track_idx\<close> only.
\<close>

type_synonym filter_state = "real list \<times> real list"

definition process_track_effects ::
  "Track \<Rightarrow> nat \<Rightarrow> real list \<Rightarrow> real list \<Rightarrow> filter_state \<Rightarrow>
   fault + (real list \<times> real list \<times> filter_state)" where
  "process_track_effects track track_idx left right fs =
     (if effect_count track > MAX_EFFECTS_PER_TRACK \<or> int track_idx \<ge> MAX_TRACKS
      then Inl Out_Of_Bounds
      else
        bind_result
          (apply_effects (take (nat (effect_count track)) (effects track)) left right
             (fst fs ! track_idx) (snd fs ! track_idx))
          (\<lambda>(left', right', sl, sr).
             Inr (left', right', ((fst fs)[track_idx := sl], (snd fs)[track_idx := sr]))))"

subsection \<open>The audio callback\<close>

text \<open>One step of the oscillator: the phase advances and is wrapped once.\<close>

definition osc_advance :: "Track \<Rightarrow> Track" where
  "osc_advance track =
     (let track1 = track\<lparr>phase := phase track
                                  + 2 * MA_PI * frequency track / real_of_int SAMPLE_RATE\<rparr>
      in if phase track1 > 2 * MA_PI then track1\<lparr>phase := phase track1 - 2 * MA_PI\<rparr>
         else track1)"

text \<open>The generation loop: \<open>generate n track\<close> runs \<open>n\<close> iterations and returns the track
  and the samples written to \<open>temp_left\<close> and \<open>temp_right\<close>.\<close>

fun generate :: "nat \<Rightarrow> Track \<Rightarrow> Track \<times> real list \<times> real list" where
  "generate 0 track = (track, [], [])"
| "generate (Suc n) track =
     (let sample = sin (phase track) * volume track * 0.3;
          track1 = osc_advance track;
          left_gain = cos ((pan track1 + 1) * MA_PI / 4);
          right_gain = sin ((pan track1 + 1) * MA_PI / 4);
          (track', ls, rs) = generate n track1
      in (track', sample * left_gain # ls, sample * right_gain # rs))"

text \<open>The loop that mixes a track into the output and accumulates its meters; \<open>out\<close> is
  the part of the output buffer from the current frame on.\<close>

fun mix_meter :: "real list \<Rightarrow> real list \<Rightarrow> real list \<Rightarrow> Track \<Rightarrow> fault + (real list \<times> Track)" where
  "mix_meter (l # ls) (r # rs) (o0 # o1 # out) track =
     (let abs_left = \<bar>l\<bar>;
          abs_right = \<bar>r\<bar>;
          track1 = (if abs_left > fst (peak_level track)
                    then track\<lparr>peak_level := (abs_left, snd (peak_level track))\<rparr> else track);
          track2 = (if abs_right > snd (peak_level track1)
                    then track1\<lparr>peak_level := (fst (peak_level track1), abs_right)\<rparr> else track1);
          track3 = track2\<lparr>rms_level := (fst (rms_level track2) + l * l,
                                         snd (rms_level track2) + r * r)\<rparr>
      in bind_result (mix_meter ls rs out track3)
           (\<lambda>(out', track'). Inr ((o0 + l) # (o1 + r) # out', track')))"
| "mix_meter (l # ls) (r # rs) [] track = Inl Out_Of_Bounds"
| "mix_meter (l # ls) (r # rs) [o0] track = Inl Out_Of_Bounds"
| "mix_meter [] rs out track = Inr (out, track)"
| "mix_meter ls [] out track = Inr (out, track)"

text \<open>The test at the head of the mixing loop.\<close>

definition track_skipped :: "bool \<Rightarrow> Track \<Rightarrow> bool" where
  "track_skipped any_solo track \<longleftrightarrow>
     (mute track \<or> \<not> playing track) \<or> (any_solo \<and> \<not> solo track)"

text \<open>
  What the loop body does for a track that is not skipped, up to the end of the effect
  chain: the meters are reset, the samples generated (into \<open>temp_left[BUFFER_SIZE]\<close> and
  \<open>temp_right[BUFFER_SIZE]\<close>) and sent through the effects when there are any.
\<close>

definition render_track ::
  "Track \<Rightarrow> nat \<Rightarrow> nat \<Rightarrow> filter_state \<Rightarrow> fault + (Track \<times> real list \<times> real list \<times> filter_state)" where
  "render_track track t n fs =
     (let track1 = track\<lparr>peak_level := (0, 0), rms_level := (0, 0)\<rparr>
      in if int n > BUFFER_SIZE then Inl Out_Of_Bounds
         else
           let (track2, temp_left, temp_right) = generate n track1
           in if effect_count track2 > 0
              then bind_result (process_track_effects track2 t temp_left temp_right fs)
                     (\<lambda>(left, right, fs'). Inr (track2, left, right, fs'))
              else Inr (track2, temp_left, temp_right, fs))"

definition finalize_rms :: "nat \<Rightarrow> Track \<Rightarrow> fault + Track" where
  "finalize_rms n track =
     (if n = 0 then Inl Non_Finite
      else Inr (track\<lparr>rms_level := (sqrt (fst (rms_level track) / real n),
                                     sqrt (snd (rms_level track) / real n))\<rparr>))"

type_synonym mix_state = "Track list \<times> filter_state \<times> real list"

definition mix_track :: "bool \<Rightarrow> nat \<Rightarrow> nat \<Rightarrow> mix_state \<Rightarrow> fault + mix_state" where
  "mix_track any_solo n t st =
     (case st of (ts, fs, out) \<Rightarrow>
        if track_skipped any_solo (ts ! t) then Inr st
        else
          bind_result (render_track (ts ! t) t n fs) (\<lambda>(track2, left, right, fs').
          bind_result (mix_meter left right out track2) (\<lambda>(out', track3).
          bind_result (finalize_rms n track3) (\<lambda>track4.
            Inr (ts[t := track4], fs', out')))))"

text \<open>The mixing loop, over the indices \<open>0 .. track_count - 1\<close> in order.\<close>

fun mix_tracks :: "bool \<Rightarrow> nat \<Rightarrow> nat list \<Rightarrow> mix_state \<Rightarrow> fault + mix_state" where
  "mix_tracks any_solo n [] st = Inr st"
| "mix_tracks any_solo n (t # ts) st =
     bind_result (mix_track any_solo n t st) (mix_tracks any_solo n ts)"

text \<open>The loop that looks for a soloed track, leaving at the first one.\<close>

function any_solo_loop :: "Track list \<Rightarrow> nat \<Rightarrow> nat \<Rightarrow> bool" where
  "any_solo_loop ts t n =
     (if t < n then (if solo (ts ! t) then True else any_solo_loop ts (Suc t) n) else False)"
  by pat_completeness auto
termination
  by (relation "measure (\<lambda>(ts, t, n). n - t)") auto

declare any_solo_loop.simps [simp del]

text \<open>The master loop: scale by the master volume, accumulate the master meters.\<close>

fun master_loop ::
  "nat \<Rightarrow> real list \<Rightarrow> AudioEngine \<Rightarrow> fault + (real list \<times> AudioEngine)" where
  "master_loop (Suc n) (o0 # o1 # out) engine =
     (let l = o0 * master_volume engine;
          r = o1 * master_volume engine;
          abs_left = \<bar>l\<bar>;
          abs_right = \<bar>r\<bar>;
          e1 = (if abs_left > fst (master_peak engine)
                then engine\<lparr>master_peak := (abs_left, snd (master_peak engine))\<rparr> else engine);
          e2 = (if abs_right > snd (master_peak e1)
                then e1\<lparr>master_peak := (fst (master_peak e1), abs_right)\<rparr> else e1);
          e3 = e2\<lparr>master_rms := (fst (master_rms e2) + l * l, snd (master_rms e2) + r * r)\<rparr>
      in bind_result (master_loop n out e3) (\<lambda>(out', e'). Inr (l # r # out', e')))"
| "master_loop (Suc n) [] engine = Inl Out_Of_Bounds"
| "master_loop (Suc n) [o0] engine = Inl Out_Of_Bounds"
| "master_loop 0 out engine = Inr (out, engine)"

text \<open>
  \<open>memset(out, 0, frame_count * CHANNELS * sizeof(float))\<close>. The product
  \<open>frame_count * CHANNELS\<close> is of type \<open>ma_uint32\<close> (unsigned 32-bit times \<open>int\<close>) and
  wraps modulo \<open>2^32\<close>; only then it is converted to the 64-bit \<open>size_t\<close> and multiplied
  by the four bytes of a float. So \<open>unat (frame_count * 2)\<close> floats are cleared.
\<close>

definition memset_zero :: "nat \<Rightarrow> real list \<Rightarrow> fault + real list" where
  "memset_zero n buf =
     (if n \<le> length buf then Inr (replicate n 0 @ drop n buf) else Inl Out_Of_Bounds)"

text \<open>
  \<open>audio_callback\<close>, on the engine, the static filter cells and the output buffer.
  In the loops the index \<open>i * 2\<close> is again a 32-bit product; the embedding follows the
  playing path for \<open>frame_count < 2^31\<close>, where it does not wrap, and gives \<open>Index_Wrap\<close>
  beyond. \<open>master_rms / frame_count\<close> divides by zero for an empty period.
\<close>

definition audio_callback ::
  "AudioEngine \<Rightarrow> filter_state \<Rightarrow> real list \<Rightarrow> ma_uint32 \<Rightarrow>
   fault + (AudioEngine \<times> filter_state \<times> real list)" where
  "audio_callback engine fs out frame_count =
     (if \<not> engine_playing engine
      then bind_result (memset_zero (unat (frame_count * word_of_int CHANNELS)) out)
             (\<lambda>out0. Inr (engine, fs, out0))
      else
        bind_result (memset_zero (unat (frame_count * word_of_int CHANNELS)) out) (\<lambda>out0.
        if unat frame_count \<ge> 2 ^ 31 then Inl Index_Wrap
        else if track_count engine > MAX_TRACKS then Inl Out_Of_Bounds
        else
          let e1 = engine\<lparr>master_peak := (0, 0), master_rms := (0, 0)\<rparr>;
              n = nat (track_count e1);
              any_solo = any_solo_loop (tracks e1) 0 n
          in
            bind_result (mix_tracks any_solo (unat frame_count) [0..<n] (tracks e1, fs, out0))
              (\<lambda>(ts, fs', out1).
            bind_result (master_loop (unat frame_count) out1 (e1\<lparr>tracks := ts\<rparr>))
              (\<lambda>(out2, e2).
            if frame_count = 0 then Inl Non_Finite
            else Inr (e2\<lparr>master_rms := (sqrt (fst (master_rms e2) / real (unat frame_count)),
                                          sqrt (snd (master_rms e2) / real (unat frame_count)))\<rparr>,
                      fs', out2)))))"

subsection \<open>The engine at program start\<close>

text \<open>\<open>AudioEngine engine = {0}\<close> of the main program: every field zero.\<close>

definition zero_effect :: Effect where
  "zero_effect = \<lparr>etype = EFFECT_NONE, enabled = False, slot0 = 0, slot1 = 0, slot2 = 0\<rparr>"

definition zero_track :: Track where
  "zero_track = \<lparr>name = [], volume = 0, pan = 0, mute = False, solo = False, armed = False,
     frequency = 0, phase = 0, playing = False, effects = replicate 8 zero_effect,
     effect_count = 0, peak_level = (0, 0), rms_level = (0, 0)\<rparr>"

definition zero_engine :: AudioEngine where
  "zero_engine = \<lparr>device = Device_Uninit,
     device_config = \<lparr>format_f32 = False, channels = 0, sampleRate = 0, periodSizeInFrames = 0\<rparr>,
     log_handle = Log_Uninit, tracks = replicate 16 zero_track, track_count = 0,
     master_volume = 0, master_peak = (0, 0), master_rms = (0, 0),
     engine_playing = False, initialized = False\<rparr>"

definition zero_filter_state :: filter_state where
  "zero_filter_state = (replicate 16 0, replicate 16 0)"

subsection \<open>The samples of a track\<close>

text \<open>The interleaved stereo layout of the output buffer: \<open>out[i * 2 + 0]\<close> is the left and
  \<open>out[i * 2 + 1]\<close> the right sample of frame \<open>i\<close>.\<close>

fun interleave :: "real list \<Rightarrow> real list \<Rightarrow> real list" where
  "interleave (l # ls) (r # rs) = l # r # interleave ls rs"
| "interleave [] rs = []"
| "interleave ls [] = []"

text \<open>The samples of track \<open>t\<close> of the array \<open>ts\<close> for a period of \<open>n\<close> frames, after its
  effects, as the loop body computes them from the filter cells \<open>fs\<close>.\<close>

definition track_samples :: "Track list \<Rightarrow> filter_state \<Rightarrow> nat \<Rightarrow> nat \<Rightarrow> real list" where
  "track_samples ts fs n t =
     (case render_track (ts ! t) t n fs of
        Inr (track2, left, right, fs') \<Rightarrow> interleave left right
      | Inl e \<Rightarrow> [])"

text \<open>The tracks below index \<open>k\<close> that the test at the head of the mixing loop lets
  through.\<close>

definition included_tracks :: "bool \<Rightarrow> Track list \<Rightarrow> nat \<Rightarrow> nat set" where
  "included_tracks a ts k = {u. u < k \<and> \<not> track_skipped a (ts ! u)}"

text \<open>The meters as functions of the samples of a period: the running maximum of the
  absolute values, from a start value, and the sum of the squares.\<close>

definition peak_of :: "real list \<Rightarrow> real \<Rightarrow> real" where
  "peak_of xs p = fold (\<lambda>x p. max p \<bar>x\<bar>) xs p"

definition sum_squares :: "real list \<Rightarrow> real" where
  "sum_squares xs = sum_list (map (\<lambda>x. x * x) xs)"

subsection \<open>An engine with two tracks\<close>

text \<open>A playing engine for the examples: track 0 plays at full volume, panned left, with
  its oscillator at a quarter turn; track 1 is muted and carries meter values of an earlier
  period. No track is soloed and no track has effects.\<close>

definition demo_engine :: AudioEngine where
  "demo_engine = zero_engine\<lparr>engine_playing := True, track_count := 2, master_volume := 1,
     tracks := (tracks zero_engine)
       [0 := zero_track\<lparr>playing := True, volume := 1, pan := - 1, phase := pi / 2\<rparr>,
        1 := zero_track\<lparr>playing := True, mute := True,
                         peak_level := (1 / 2, 1 / 2), rms_level := (1 / 4, 1 / 4)\<rparr>]\<rparr>"

subsection \<open>Inputs on which the callback is defined\<close>

text \<open>An effect whose filter, if it is one and enabled, does not divide by zero; a track
  whose effect count is within the array and whose effects in use are all of that kind.\<close>

definition effect_finite :: "Effect \<Rightarrow> bool" where
  "effect_finite effect \<longleftrightarrow>
     ((etype effect = EFFECT_LOWPASS \<or> etype effect = EFFECT_HIGHPASS) \<and> enabled effect
       \<longrightarrow> cutoff effect + 1 \<noteq> 0)"

definition track_defined :: "Track \<Rightarrow> bool" where
  "track_defined track \<longleftrightarrow>
     effect_count track \<le> MAX_EFFECTS_PER_TRACK
     \<and> list_all effect_finite (take (nat (effect_count track)) (effects track))"

subsection \<open>The track loop in binary32 arithmetic\<close>

text \<open>
  The callback computes in C \<open>float\<close>. The definitions above read every operation as
  exact; the definitions of this subsection read the body of the track loop as the
  processor computes it: IEEE 754 binary32, every operation rounded to nearest with ties
  to even, each \<open>float\<close> expression evaluated in its own precision and no product fused
  with a sum. A value is still a real, the one the binary32 number stands for.

  \<open>f32_round x\<close> is the nearest real with a significand of 24 bits, in the binade of \<open>x\<close>
  (the interval \<open>[2^e, 2^(e+1))\<close> that holds \<open>|x|\<close>); \<open>round_even\<close> rounds to the nearest
  integer, a tie to the even one.
\<close>

definition round_even :: "real \<Rightarrow> int" where
  "round_even y =
     (let f = \<lfloor>y\<rfloor>; d = y - of_int f
      in if d < 1 / 2 then f else if 1 / 2 < d then f + 1 else if even f then f else f + 1)"

definition f32_round :: "real \<Rightarrow> real" where
  "f32_round x =
     (if x = 0 then 0
      else let u = 2 powi (\<lfloor>log 2 \<bar>x\<bar>\<rfloor> - 23)
           in of_int (round_even (x / u)) * u)"

text \<open>The largest binary32 number and the smallest normal one.\<close>

definition FLT_MAX :: real where "FLT_MAX = (2 ^ 24 - 1) * 2 ^ 104"
definition FLT_MIN :: real where "FLT_MIN = 2 powi (- 126)"

text \<open>
  The result of an operation whose exact value is \<open>x\<close>. An operation whose result is not
  zero or a normal number ends the execution that the embedding follows: when the
  rounded result is beyond \<open>FLT_MAX\<close> (C goes on with an infinity) it is \<open>Non_Finite\<close>,
  as are a division by zero and the root of a negative number below; when the value is
  not zero and below \<open>FLT_MIN\<close>, in the range of the subnormal numbers, where the result
  depends on whether the audio thread flushes them to zero, it is \<open>Denormal\<close>.
\<close>

definition fl :: "real \<Rightarrow> fault + real" where
  "fl x =
     (if FLT_MAX < \<bar>f32_round x\<bar> then Inl Non_Finite
      else if x \<noteq> 0 \<and> \<bar>x\<bar> < FLT_MIN then Inl Denormal
      else Inr (f32_round x))"

definition fadd :: "real \<Rightarrow> real \<Rightarrow> fault + real" where "fadd a b = fl (a + b)"
definition fsub :: "real \<Rightarrow> real \<Rightarrow> fault + real" where "fsub a b = fl (a - b)"
definition fmul :: "real \<Rightarrow> real \<Rightarrow> fault + real" where "fmul a b = fl (a * b)"

definition fdiv :: "real \<Rightarrow> real \<Rightarrow> fault + real" where
  "fdiv a b = (if b = 0 then Inl Non_Finite else fl (a / b))"

text \<open>\<open>sqrtf\<close> is correctly rounded by IEEE 754; \<open>sinf\<close> and \<open>cosf\<close> of the C library are
  taken as correctly rounded too.\<close>

definition sqrtf :: "real \<Rightarrow> fault + real" where
  "sqrtf x = (if x < 0 then Inl Non_Finite else fl (sqrt x))"

definition sinf :: "real \<Rightarrow> fault + real" where "sinf x = fl (sin x)"
definition cosf :: "real \<Rightarrow> fault + real" where "cosf x = fl (cos x)"

text \<open>Modelled from the spec: \<open>MA_PI\<close> as a \<open>float\<close>. The macro is in the miniaudio header,
  which is not among the sources; the spec writes \<open>\<pi>\<close>, and the binary32 number nearest
  to \<open>\<pi>\<close> is \<open>13176795 / 2^22 = 3.14159274...\<close>, a little above \<open>\<pi>\<close>.\<close>

definition MA_PI_f32 :: real where "MA_PI_f32 = 13176795 / 4194304"

text \<open>The literal \<open>0.3F\<close>: the binary32 number nearest to \<open>3/10\<close>.\<close>

definition FLT_0_3 :: real where "FLT_0_3 = 5033165 / 16777216"

text \<open>The sample of the oscillator, \<open>sinf(track->phase) * track->volume * 0.3F\<close>.\<close>

definition osc_sample_f32 :: "Track \<Rightarrow> fault + real" where
  "osc_sample_f32 track =
     bind_result (sinf (phase track)) (\<lambda>s.
     bind_result (fmul s (volume track)) (\<lambda>sv.
       fmul sv FLT_0_3))"

text \<open>One step of the oscillator:
  \<open>phase += 2.0F * MA_PI * frequency / SAMPLE_RATE; if (phase > 2.0F * MA_PI) phase -= 2.0F * MA_PI\<close>.
  \<open>SAMPLE_RATE\<close> is converted to \<open>float\<close> for the division.\<close>

definition osc_advance_f32 :: "Track \<Rightarrow> fault + Track" where
  "osc_advance_f32 track =
     bind_result (fmul 2 MA_PI_f32) (\<lambda>two_pi.
     bind_result (fmul two_pi (frequency track)) (\<lambda>a.
     bind_result (fl (real_of_int SAMPLE_RATE)) (\<lambda>rate.
     bind_result (fdiv a rate) (\<lambda>inc.
     bind_result (fadd (phase track) inc) (\<lambda>phase1.
       if phase1 > two_pi
       then bind_result (fsub phase1 two_pi) (\<lambda>phase2. Inr (track\<lparr>phase := phase2\<rparr>))
       else Inr (track\<lparr>phase := phase1\<rparr>))))))"

text \<open>The two gains of the constant-power panning, \<open>cosf((pan + 1.0F) * MA_PI / 4.0F)\<close>
  and \<open>sinf((pan + 1.0F) * MA_PI / 4.0F)\<close>.\<close>

definition pan_gains_f32 :: "real \<Rightarrow> fault + (real \<times> real)" where
  "pan_gains_f32 p =
     bind_result (fadd p 1) (\<lambda>p1.
     bind_result (fmul p1 MA_PI_f32) (\<lambda>p2.
     bind_result (fdiv p2 4) (\<lambda>angle.
     bind_result (cosf angle) (\<lambda>left_gain.
     bind_result (sinf angle) (\<lambda>right_gain.
       Inr (left_gain, right_gain))))))"

text \<open>The generation loop.\<close>

fun generate_f32 :: "nat \<Rightarrow> Track \<Rightarrow> fault + (Track \<times> real list \<times> real list)" where
  "generate_f32 0 track = Inr (track, [], [])"
| "generate_f32 (Suc n) track =
     bind_result (osc_sample_f32 track) (\<lambda>sample.
     bind_result (osc_advance_f32 track) (\<lambda>track1.
     bind_result (pan_gains_f32 (pan track1)) (\<lambda>(left_gain, right_gain).
     bind_result (fmul sample left_gain) (\<lambda>l.
     bind_result (fmul sample right_gain) (\<lambda>r.
     bind_result (generate_f32 n track1) (\<lambda>(track', ls, rs).
       Inr (track', l # ls, r # rs)))))))"

text \<open>The track after \<open>i\<close> steps of the oscillator.\<close>

fun osc_steps_f32 :: "nat \<Rightarrow> Track \<Rightarrow> fault + Track" where
  "osc_steps_f32 0 track = Inr track"
| "osc_steps_f32 (Suc i) track = bind_result (osc_advance_f32 track) (osc_steps_f32 i)"

text \<open>The effects.\<close>

definition process_gain_effect_f32 :: "real \<Rightarrow> Effect \<Rightarrow> fault + real" where
  "process_gain_effect_f32 sample effect =
     (if \<not> enabled effect then Inr sample else fmul sample (gain effect))"

definition process_lowpass_effect_f32 ::
  "real \<Rightarrow> Effect \<Rightarrow> real \<Rightarrow> fault + (real \<times> real)" where
  "process_lowpass_effect_f32 sample effect state =
     (if \<not> enabled effect then Inr (sample, state)
      else
        bind_result (fadd (cutoff effect) 1) (\<lambda>d.
        bind_result (fdiv (cutoff effect) d) (\<lambda>alpha.
        bind_result (fmul alpha sample) (\<lambda>a.
        bind_result (fsub 1 alpha) (\<lambda>b.
        bind_result (fmul b state) (\<lambda>c.
        bind_result (fadd a c) (\<lambda>state'.
          Inr (state', state'))))))))"

definition process_highpass_effect_f32 ::
  "real \<Rightarrow> Effect \<Rightarrow> real \<Rightarrow> fault + (real \<times> real)" where
  "process_highpass_effect_f32 sample effect state =
     (if \<not> enabled effect then Inr (sample, state)
      else
        bind_result (fadd (cutoff effect) 1) (\<lambda>d.
        bind_result (fdiv 1 d) (\<lambda>alpha.
        bind_result (fsub sample state) (\<lambda>output.
        bind_result (fmul alpha output) (\<lambda>a.
        bind_result (fadd state a) (\<lambda>state'.
          Inr (output, state')))))))"

text \<open>The frame loop of the gain case.\<close>

fun gain_frames_f32 :: "Effect \<Rightarrow> real list \<Rightarrow> real list \<Rightarrow> fault + (real list \<times> real list)" where
  "gain_frames_f32 effect (l # ls) (r # rs) =
     bind_result (process_gain_effect_f32 l effect) (\<lambda>l'.
     bind_result (process_gain_effect_f32 r effect) (\<lambda>r'.
     bind_result (gain_frames_f32 effect ls rs) (\<lambda>(ls', rs').
       Inr (l' # ls', r' # rs'))))"
| "gain_frames_f32 effect [] rs = Inr ([], [])"
| "gain_frames_f32 effect ls [] = Inr ([], [])"

fun apply_effects_f32 ::
  "Effect list \<Rightarrow> real list \<Rightarrow> real list \<Rightarrow> real \<Rightarrow> real \<Rightarrow>
   fault + (real list \<times> real list \<times> real \<times> real)" where
  "apply_effects_f32 [] left right sl sr = Inr (left, right, sl, sr)"
| "apply_effects_f32 (effect # es) left right sl sr =
     (case etype effect of
        EFFECT_GAIN \<Rightarrow>
          bind_result (gain_frames_f32 effect left right)
            (\<lambda>(left', right'). apply_effects_f32 es left' right' sl sr)
      | EFFECT_LOWPASS \<Rightarrow>
          bind_result (filter_frames process_lowpass_effect_f32 effect left right sl sr)
            (\<lambda>(left', right', sl', sr'). apply_effects_f32 es left' right' sl' sr')
      | EFFECT_HIGHPASS \<Rightarrow>
          bind_result (filter_frames process_highpass_effect_f32 effect left right sl sr)
            (\<lambda>(left', right', sl', sr'). apply_effects_f32 es left' right' sl' sr')
      | EFFECT_DELAY \<Rightarrow> apply_effects_f32 es left right sl sr
      | EFFECT_REVERB \<Rightarrow> apply_effects_f32 es left right sl sr
      | EFFECT_NONE \<Rightarrow> apply_effects_f32 es left right sl sr)"

definition process_track_effects_f32 ::
  "Track \<Rightarrow> nat \<Rightarrow> real list \<Rightarrow> real list \<Rightarrow> filter_state \<Rightarrow>
   fault + (real list \<times> real list \<times> filter_state)" where
  "process_track_effects_f32 track track_idx left right fs =
     (if effect_count track > MAX_EFFECTS_PER_TRACK \<or> int track_idx \<ge> MAX_TRACKS
      then Inl Out_Of_Bounds
      else
        bind_result
          (apply_effects_f32 (take (nat (effect_count track)) (effects track)) left right
             (fst fs ! track_idx) (snd fs ! track_idx))
          (\<lambda>(left', right', sl, sr).
             Inr (left', right', ((fst fs)[track_idx := sl], (snd fs)[track_idx := sr]))))"

text \<open>The loop that mixes the track into the output and accumulates its meters.
  \<open>fabsf\<close> and the comparisons are exact.\<close>

fun mix_meter_f32 ::
  "real list \<Rightarrow> real list \<Rightarrow> real list \<Rightarrow> Track \<Rightarrow> fault + (real list \<times> Track)" where
  "mix_meter_f32 (l # ls) (r # rs) (o0 # o1 # out) track =
     bind_result (fadd o0 l) (\<lambda>o0'.
     bind_result (fadd o1 r) (\<lambda>o1'.
     let abs_left = \<bar>l\<bar>;
         abs_right = \<bar>r\<bar>;
         track1 = (if abs_left > fst (peak_level track)
                   then track\<lparr>peak_level := (abs_left, snd (peak_level track))\<rparr> else track);
         track2 = (if abs_right > snd (peak_level track1)
                   then track1\<lparr>peak_level := (fst (peak_level track1), abs_right)\<rparr> else track1)
     in
     bind_result (fmul l l) (\<lambda>ll.
     bind_result (fadd (fst (rms_level track2)) ll) (\<lambda>rms_left.
     bind_result (fmul r r) (\<lambda>rr.
     bind_result (fadd (snd (rms_level track2)) rr) (\<lambda>rms_right.
     bind_result (mix_meter_f32 ls rs out (track2\<lparr>rms_level := (rms_left, rms_right)\<rparr>))
       (\<lambda>(out', track'). Inr (o0' # o1' # out', track'))))))))"
| "mix_meter_f32 (l # ls) (r # rs) [] track = Inl Out_Of_Bounds"
| "mix_meter_f32 (l # ls) (r # rs) [o0] track = Inl Out_Of_Bounds"
| "mix_meter_f32 [] rs out track = Inr (out, track)"
| "mix_meter_f32 ls [] out track = Inr (out, track)"

text \<open>The meter reset, the generation loop and the effects.\<close>

definition render_track_f32 ::
  "Track \<Rightarrow> nat \<Rightarrow> nat \<Rightarrow> filter_state \<Rightarrow> fault + (Track \<times> real list \<times> real list \<times> filter_state)" where
  "render_track_f32 track t n fs =
     (let track1 = track\<lparr>peak_level := (0, 0), rms_level := (0, 0)\<rparr>
      in if int n > BUFFER_SIZE then Inl Out_Of_Bounds
         else
           bind_result (generate_f32 n track1) (\<lambda>(track2, temp_left, temp_right).
             if effect_count track2 > 0
             then bind_result (process_track_effects_f32 track2 t temp_left temp_right fs)
                    (\<lambda>(left, right, fs'). Inr (track2, left, right, fs'))
             else Inr (track2, temp_left, temp_right, fs)))"

text \<open>\<open>rms_level[c] = sqrtf(rms_level[c] / frame_count)\<close>; \<open>frame_count\<close> is converted to
  \<open>float\<close> for the division.\<close>

definition finalize_rms_f32 :: "nat \<Rightarrow> Track \<Rightarrow> fault + Track" where
  "finalize_rms_f32 n track =
     bind_result (fl (real n)) (\<lambda>count.
     bind_result (fdiv (fst (rms_level track)) count) (\<lambda>mean_left.
     bind_result (sqrtf mean_left) (\<lambda>rms_left.
     bind_result (fdiv (snd (rms_level track)) count) (\<lambda>mean_right.
     bind_result (sqrtf mean_right) (\<lambda>rms_right.
       Inr (track\<lparr>rms_level := (rms_left, rms_right)\<rparr>))))))"

text \<open>The body of the track loop for a track that the test at its head lets through, on
  the track, its index, the frame count, the filter cells and the output buffer.\<close>

definition track_body_f32 ::
  "Track \<Rightarrow> nat \<Rightarrow> nat \<Rightarrow> filter_state \<Rightarrow> real list \<Rightarrow>
   fault + (Track \<times> filter_state \<times> real list)" where
  "track_body_f32 track t n fs out =
     bind_result (render_track_f32 track t n fs) (\<lambda>(track2, left, right, fs').
     bind_result (mix_meter_f32 left right out track2) (\<lambda>(out', track3).
     bind_result (finalize_rms_f32 n track3) (\<lambda>track4.
       Inr (track4, fs', out'))))"

text \<open>The root mean square of a list of samples as binary32 arithmetic computes it in
  the order of the callback: the squares are added to the sum one sample after the
  other, the sum is divided by the count and the root taken, each step rounded.\<close>

fun sum_squares_f32 :: "real list \<Rightarrow> real \<Rightarrow> fault + real" where
  "sum_squares_f32 [] acc = Inr acc"
| "sum_squares_f32 (x # xs) acc =
     bind_result (fmul x x) (\<lambda>xx.
     bind_result (fadd acc xx) (sum_squares_f32 xs))"

definition rms_f32 :: "real list \<Rightarrow> nat \<Rightarrow> fault + real" where
  "rms_f32 xs n =
     bind_result (sum_squares_f32 xs 0) (\<lambda>total.
     bind_result (fl (real n)) (\<lambda>count.
     bind_result (fdiv total count) sqrtf))"

section \<open>Properties\<close>

subsection \<open>Auxiliary facts\<close>

lemmas constants_defs =
  MAX_TRACKS_def SAMPLE_RATE_def CHANNELS_def BUFFER_SIZE_def MAX_EFFECTS_PER_TRACK_def

lemma bind_result_Inr [simp]: "bind_result (Inr x) f = f x"
  by (simp add: bind_result_def)

lemma bind_result_Inl [simp]: "bind_result (Inl e) f = Inl e"
  by (simp add: bind_result_def)

lemma bind_result_eq_Inr:
  "bind_result m f = Inr y \<longleftrightarrow> (\<exists>x. m = Inr x \<and> f x = Inr y)"
  by (cases m) simp_all

lemma engine_wf_zero: "engine_wf zero_engine"
  by (simp add: engine_wf_def zero_engine_def list_all_iff track_wf_def zero_track_def
      constants_defs)

subsection \<open>Adding a track\<close>

text \<open>
  Claim C5 as stated does not hold: the name of the new track is not always the name the
  caller supplies. \<open>snprintf\<close> writes into \<open>char name[64]\<close>, so a name of 64 characters
  is stored without its last one.
\<close>

theorem add_track_name_counterexample:
  "audio_engine_add_track zero_engine (replicate 64 (CHR ''a'')) 440 =
     Inr (0, zero_engine\<lparr>track_count := 1,
                          tracks := (tracks zero_engine)[0 :=
                            zero_track\<lparr>name := replicate 63 (CHR ''a''), volume := 0.75,
                                        frequency := 440\<rparr>]\<rparr>)
   \<and> replicate 63 (CHR ''a'') \<noteq> replicate 64 (CHR ''a'')"
proof -
  have "length (replicate 63 (CHR ''a'')) \<noteq> length (replicate 64 (CHR ''a''))"
    by simp
  then have ne: "replicate 63 (CHR ''a'') \<noteq> replicate 64 (CHR ''a'')"
    by metis
  have tk: "take 63 (replicate 64 (CHR ''a'')) = replicate 63 (CHR ''a'')"
    by simp
  have "audio_engine_add_track zero_engine (replicate 64 (CHR ''a'')) 440 =
     Inr (0, zero_engine\<lparr>track_count := 1,
                          tracks := (tracks zero_engine)[0 :=
                            zero_track\<lparr>name := replicate 63 (CHR ''a''), volume := 0.75,
                                        frequency := 440\<rparr>]\<rparr>)"
    unfolding audio_engine_add_track_def Let_def tk
    by (simp add: zero_engine_def zero_track_def MAX_TRACKS_def)
  with ne show ?thesis by simp
qed

text \<open>
  Claim C5, amended: with \<open>track_count\<close> at the capacity 16, \<open>add_track\<close> returns \<open>-1\<close> and
  leaves the engine unchanged; with \<open>0 \<le> track_count < 16\<close> it returns the previous
  \<open>track_count\<close> as the index of the new track, increments \<open>track_count\<close>, leaves the other
  tracks as they are and sets the new track to volume 0.75, pan 0, mute, solo and armed
  false, phase 0, effect_count 0, playing false, the caller's frequency, and as name the
  first 63 characters of the caller's name.
\<close>

theorem add_track_amended:
  assumes "engine_wf engine"
  shows "(track_count engine = MAX_TRACKS \<longrightarrow>
            audio_engine_add_track engine nm freq = Inr (- 1, engine))
       \<and> (0 \<le> track_count engine \<and> track_count engine < MAX_TRACKS \<longrightarrow>
            (\<exists>engine'.
               audio_engine_add_track engine nm freq = Inr (track_count engine, engine')
             \<and> track_count engine' = track_count engine + 1
             \<and> (\<forall>u. u \<noteq> nat (track_count engine) \<longrightarrow> tracks engine' ! u = tracks engine ! u)
             \<and> volume (tracks engine' ! nat (track_count engine)) = 0.75
             \<and> pan (tracks engine' ! nat (track_count engine)) = 0
             \<and> \<not> mute (tracks engine' ! nat (track_count engine))
             \<and> \<not> solo (tracks engine' ! nat (track_count engine))
             \<and> \<not> armed (tracks engine' ! nat (track_count engine))
             \<and> phase (tracks engine' ! nat (track_count engine)) = 0
             \<and> effect_count (tracks engine' ! nat (track_count engine)) = 0
             \<and> \<not> playing (tracks engine' ! nat (track_count engine))
             \<and> name (tracks engine' ! nat (track_count engine)) = take 63 nm
             \<and> frequency (tracks engine' ! nat (track_count engine)) = freq))"
proof -
  have len: "int (length (tracks engine)) = MAX_TRACKS"
    using assms by (simp add: engine_wf_def)
  show ?thesis
    using len by (auto simp: audio_engine_add_track_def Let_def)
qed

theorem add_track_amended_witness:
  "engine_wf zero_engine \<and> 0 \<le> track_count zero_engine \<and> track_count zero_engine < MAX_TRACKS
   \<and> (\<exists>engine'. audio_engine_add_track zero_engine ''Bass'' 110 = Inr (track_count zero_engine, engine')
        \<and> name (tracks engine' ! nat (track_count zero_engine)) = take 63 ''Bass'')
   \<and> engine_wf (zero_engine\<lparr>track_count := 16\<rparr>)
   \<and> track_count (zero_engine\<lparr>track_count := 16\<rparr>) = MAX_TRACKS
   \<and> audio_engine_add_track (zero_engine\<lparr>track_count := 16\<rparr>) ''Bass'' 110
       = Inr (- 1, zero_engine\<lparr>track_count := 16\<rparr>)"
proof -
  have wf: "engine_wf zero_engine" by (rule engine_wf_zero)
  have wf': "engine_wf (zero_engine\<lparr>track_count := 16\<rparr>)"
    using wf by (simp add: engine_wf_def)
  have c: "0 \<le> track_count zero_engine \<and> track_count zero_engine < MAX_TRACKS"
    by (simp add: zero_engine_def MAX_TRACKS_def)
  have f: "track_count (zero_engine\<lparr>track_count := 16\<rparr>) = MAX_TRACKS"
    by (simp add: MAX_TRACKS_def)
  from add_track_amended [OF wf, of "''Bass''" 110]
    add_track_amended [OF wf', of "''Bass''" 110] wf wf' c f
  show ?thesis by blast
qed

subsection \<open>Rejected effect operations\<close>

text \<open>
  Claim C6: \<open>add_effect\<close> on a track with \<open>effect_count = 8\<close>, \<open>remove_effect\<close> and
  \<open>toggle_effect\<close> with an index outside \<open>[0, effect_count)\<close>, and \<open>set_effect_param\<close> with
  a parameter index for which the kind of the effect declares no parameter, return
  normally and leave the track (the effect) unchanged.
\<close>

theorem rejected_effect_operations_noop:
  "(effect_count track = MAX_EFFECTS_PER_TRACK \<longrightarrow>
      audio_engine_add_effect track ty = Inr track)
   \<and> (effect_index < 0 \<or> effect_index \<ge> effect_count track \<longrightarrow>
        audio_engine_remove_effect track effect_index = Inr track
      \<and> audio_engine_toggle_effect track effect_index = Inr track)
   \<and> (\<not> (0 \<le> param_index \<and> param_index < param_count (etype effect)) \<longrightarrow>
        audio_engine_set_effect_param effect param_index v = effect)"
  by (cases "etype effect")
     (auto simp: audio_engine_add_effect_def audio_engine_remove_effect_def
        audio_engine_toggle_effect_def audio_engine_set_effect_param_def)

theorem rejected_effect_operations_noop_witness:
  "effect_count (zero_track\<lparr>effect_count := 8\<rparr>) = MAX_EFFECTS_PER_TRACK
   \<and> audio_engine_add_effect (zero_track\<lparr>effect_count := 8\<rparr>) EFFECT_GAIN
       = Inr (zero_track\<lparr>effect_count := 8\<rparr>)
   \<and> (8 \<ge> effect_count (zero_track\<lparr>effect_count := 8\<rparr>))
   \<and> audio_engine_remove_effect (zero_track\<lparr>effect_count := 8\<rparr>) 8
       = Inr (zero_track\<lparr>effect_count := 8\<rparr>)
   \<and> audio_engine_toggle_effect (zero_track\<lparr>effect_count := 8\<rparr>) 8
       = Inr (zero_track\<lparr>effect_count := 8\<rparr>)
   \<and> \<not> (0 \<le> (1::int) \<and> 1 < param_count (etype (zero_effect\<lparr>etype := EFFECT_GAIN\<rparr>)))
   \<and> audio_engine_set_effect_param (zero_effect\<lparr>etype := EFFECT_GAIN\<rparr>) 1 5
       = zero_effect\<lparr>etype := EFFECT_GAIN\<rparr>"
  using rejected_effect_operations_noop
    [of "zero_track\<lparr>effect_count := 8\<rparr>" EFFECT_GAIN 8 1 "zero_effect\<lparr>etype := EFFECT_GAIN\<rparr>" 5]
  by (simp add: MAX_EFFECTS_PER_TRACK_def)

subsection \<open>Initialisation\<close>

text \<open>
  Claim C9 as stated does not hold: a failing \<open>init\<close> has already written
  \<open>master_volume\<close>, \<open>track_count\<close> and \<open>playing\<close>. On the zeroed engine of the main program
  a failed device initialisation leaves \<open>master_volume\<close> at 0.75 instead of 0.
\<close>

theorem init_failure_mutates_counterexample:
  "fst (audio_engine_init False False zero_engine) = False
   \<and> master_volume (snd (audio_engine_init False False zero_engine))
       \<noteq> master_volume zero_engine"
  by (simp add: audio_engine_init_def Let_def zero_engine_def)

text \<open>
  Claim C9, amended: \<open>init\<close> returns true exactly when the initialisation and the start of
  the sink both succeed, and it stores \<open>initialized = true\<close> in that case only. In every
  failure case it returns false and leaves \<open>tracks\<close> and \<open>initialized\<close> unchanged, while
  \<open>master_volume\<close>, \<open>track_count\<close> and \<open>playing\<close> have been reset to 0.75, 0 and false.
\<close>

theorem init_amended:
  "fst (audio_engine_init init_ok start_ok engine) = (init_ok \<and> start_ok)
   \<and> (init_ok \<and> start_ok \<longrightarrow> initialized (snd (audio_engine_init init_ok start_ok engine)))
   \<and> (\<not> (init_ok \<and> start_ok) \<longrightarrow>
        initialized (snd (audio_engine_init init_ok start_ok engine)) = initialized engine
      \<and> tracks (snd (audio_engine_init init_ok start_ok engine)) = tracks engine
      \<and> master_volume (snd (audio_engine_init init_ok start_ok engine)) = 0.75
      \<and> track_count (snd (audio_engine_init init_ok start_ok engine)) = 0
      \<and> \<not> engine_playing (snd (audio_engine_init init_ok start_ok engine)))"
  by (simp add: audio_engine_init_def Let_def)

theorem init_amended_witness:
  "\<not> (True \<and> False)
   \<and> fst (audio_engine_init True False zero_engine) = False
   \<and> initialized (snd (audio_engine_init True False zero_engine)) = initialized zero_engine
   \<and> tracks (snd (audio_engine_init True False zero_engine)) = tracks zero_engine
   \<and> master_volume (snd (audio_engine_init True False zero_engine)) = 0.75
   \<and> fst (audio_engine_init True True zero_engine) = True
   \<and> initialized (snd (audio_engine_init True True zero_engine))"
  using init_amended [of True False zero_engine] init_amended [of True True zero_engine]
  by simp

subsection \<open>The inactive path of the callback\<close>

lemma unat_frames: "unat (fc :: 32 word) < 2 ^ 31 \<Longrightarrow> unat (fc * word_of_int CHANNELS) = 2 * unat fc"
  by (simp add: CHANNELS_def unat_word_ariths)

text \<open>
  Claim C2: when the engine is not playing, the callback returns with every one of the
  \<open>frame_count * 2\<close> floats of the output buffer zero (and the engine and the filter cells
  untouched), whatever the tracks are. This is for every period whose \<open>frame_count\<close> is
  below \<open>2^31\<close>, so that the 32-bit product \<open>frame_count * CHANNELS\<close> in the size given to
  \<open>memset\<close> is the size of the buffer; the sink is configured for periods of 512 frames.
\<close>

theorem callback_silence:
  assumes "\<not> engine_playing engine" and "length out = 2 * unat frame_count"
    and "unat frame_count < 2 ^ 31"
  shows "audio_callback engine fs out frame_count
           = Inr (engine, fs, replicate (2 * unat frame_count) 0)"
  using assms by (simp add: audio_callback_def memset_zero_def unat_frames)

theorem callback_silence_witness:
  "\<not> engine_playing zero_engine \<and> length [1, 2, 3, 4 :: real] = 2 * unat (2 :: 32 word)
   \<and> unat (2 :: 32 word) < 2 ^ 31
   \<and> audio_callback zero_engine zero_filter_state [1, 2, 3, 4] 2
       = Inr (zero_engine, zero_filter_state, replicate 4 0)"
proof -
  have a: "\<not> engine_playing zero_engine" by (simp add: zero_engine_def)
  have b: "length [1, 2, 3, 4 :: real] = 2 * unat (2 :: 32 word)" by simp
  have c: "unat (2 :: 32 word) < 2 ^ 31" by simp
  have d: "2 * unat (2 :: 32 word) = 4" by simp
  from callback_silence [OF a b c, of zero_filter_state] a b c
  show ?thesis unfolding d by blast
qed

text \<open>The bound on \<open>frame_count\<close> is where the 32-bit product stops being the size of
  the buffer: at \<open>2^31\<close> frames it is 0.\<close>

lemma memset_size_wraps:
  "\<not> engine_playing zero_engine
   \<and> length (replicate (2 ^ 32) (1::real)) = 2 * unat (2147483648 :: 32 word)
   \<and> audio_callback zero_engine zero_filter_state (replicate (2 ^ 32) 1) 2147483648
       = Inr (zero_engine, zero_filter_state, replicate (2 ^ 32) 1)
   \<and> replicate (2 ^ 32) (1::real) ! 0 \<noteq> 0"
proof -
  have a: "\<not> engine_playing zero_engine" by (simp add: zero_engine_def)
  have b: "unat ((2147483648 :: 32 word) * word_of_int CHANNELS) = 0"
    by (simp add: CHANNELS_def)
  have c: "audio_callback zero_engine zero_filter_state (replicate (2 ^ 32) 1) 2147483648
       = Inr (zero_engine, zero_filter_state, replicate (2 ^ 32) 1)"
    unfolding audio_callback_def using a by (simp only: b memset_zero_def) simp
  have d: "replicate (2 ^ 32) (1::real) ! 0 \<noteq> 0"
    by (subst nth_replicate) simp_all
  have e: "length (replicate (2 ^ 32) (1::real)) = 2 * unat (2147483648 :: 32 word)"
    by simp
  from a c d e show ?thesis by blast
qed

subsection \<open>The oscillator and the panning\<close>

lemma osc_advance_fields [simp]:
  "pan (osc_advance track) = pan track"
  "volume (osc_advance track) = volume track"
  "frequency (osc_advance track) = frequency track"
  by (simp_all add: osc_advance_def Let_def)

lemma funpow_osc_fields [simp]:
  "pan ((osc_advance ^^ i) track) = pan track"
  "volume ((osc_advance ^^ i) track) = volume track"
  "frequency ((osc_advance ^^ i) track) = frequency track"
  by (induction i) simp_all

lemma generate_length:
  "length (fst (snd (generate n track))) = n \<and> length (snd (snd (generate n track))) = n"
  by (induction n arbitrary: track) (simp_all add: Let_def case_prod_beta)

lemma generate_track: "fst (generate n track) = (osc_advance ^^ n) track"
  by (induction n arbitrary: track) (simp_all add: Let_def funpow_swap1 case_prod_beta)

lemma generate_nth:
  "i < n \<Longrightarrow>
     fst (snd (generate n track)) ! i
       = sin (phase ((osc_advance ^^ i) track)) * volume track * 0.3 * cos ((pan track + 1) * pi / 4)
   \<and> snd (snd (generate n track)) ! i
       = sin (phase ((osc_advance ^^ i) track)) * volume track * 0.3 * sin ((pan track + 1) * pi / 4)"
proof (induction n arbitrary: track i)
  case 0
  then show ?case by simp
next
  case (Suc n)
  show ?case
  proof (cases i)
    case 0
    then show ?thesis by (simp add: Let_def case_prod_beta MA_PI_def)
  next
    case (Suc j)
    with Suc.prems have "j < n" by simp
    from Suc.IH [OF this, of "osc_advance track"] Suc show ?thesis
      by (simp add: Let_def funpow_swap1 case_prod_beta)
  qed
qed

text \<open>
  The generation loop in the exact reading of the arithmetic: sample \<open>i\<close> of a period, as
  written to \<open>temp_left\<close> and \<open>temp_right\<close> before the effects, is
  \<open>sin(phase_i) * volume * 0.3 * cos((pan+1)*pi/4)\<close> on the left and the same with
  \<open>sin((pan+1)*pi/4)\<close> on the right, \<open>phase_i\<close> being the phase of the track after \<open>i\<close>
  samples. With exact products and the exact \<open>pi\<close> the gains at \<open>pan = -1\<close>, \<open>1\<close> and \<open>0\<close>
  are \<open>(1, 0)\<close>, \<open>(0, 1)\<close> and twice \<open>cos(pi/4)\<close>.
\<close>

lemma generate_sample_formula_exact:
  assumes "i < n"
  shows "fst (snd (generate n track)) ! i
           = sin (phase (fst (generate i track))) * volume track * 0.3
               * cos ((pan track + 1) * pi / 4)
       \<and> snd (snd (generate n track)) ! i
           = sin (phase (fst (generate i track))) * volume track * 0.3
               * sin ((pan track + 1) * pi / 4)
       \<and> (pan track = - 1 \<longrightarrow>
            fst (snd (generate n track)) ! i
              = sin (phase (fst (generate i track))) * volume track * 0.3 * 1
          \<and> snd (snd (generate n track)) ! i = 0)
       \<and> (pan track = 1 \<longrightarrow>
            fst (snd (generate n track)) ! i = 0
          \<and> snd (snd (generate n track)) ! i
              = sin (phase (fst (generate i track))) * volume track * 0.3 * 1)
       \<and> (pan track = 0 \<longrightarrow>
            fst (snd (generate n track)) ! i
              = sin (phase (fst (generate i track))) * volume track * 0.3 * cos (pi / 4)
          \<and> snd (snd (generate n track)) ! i
              = sin (phase (fst (generate i track))) * volume track * 0.3 * cos (pi / 4))"
proof -
  have L: "fst (snd (generate n track)) ! i
             = sin (phase (fst (generate i track))) * volume track * 0.3
                 * cos ((pan track + 1) * pi / 4)"
    and R: "snd (snd (generate n track)) ! i
             = sin (phase (fst (generate i track))) * volume track * 0.3
                 * sin ((pan track + 1) * pi / 4)"
    using generate_nth [OF assms, of track] by (simp_all add: generate_track)
  have left: "pan track = - 1 \<Longrightarrow>
      cos ((pan track + 1) * pi / 4) = 1 \<and> sin ((pan track + 1) * pi / 4) = 0"
    by simp
  have right: "pan track = 1 \<Longrightarrow>
      cos ((pan track + 1) * pi / 4) = 0 \<and> sin ((pan track + 1) * pi / 4) = 1"
    by simp
  have centre: "pan track = 0 \<Longrightarrow>
      sin ((pan track + 1) * pi / 4) = cos (pi / 4) \<and> cos ((pan track + 1) * pi / 4) = cos (pi / 4)"
    by (simp add: sin_45 cos_45)
  show ?thesis
    unfolding L R using left right centre by auto
qed

lemma generate_sample_formula_exact_example:
  "(0::nat) < 1
   \<and> pan (zero_track\<lparr>volume := 1, pan := - 1, phase := pi / 2\<rparr>) = - 1
   \<and> fst (snd (generate 1 (zero_track\<lparr>volume := 1, pan := - 1, phase := pi / 2\<rparr>))) ! 0 = 0.3
   \<and> snd (snd (generate 1 (zero_track\<lparr>volume := 1, pan := - 1, phase := pi / 2\<rparr>))) ! 0 = 0
   \<and> pan (zero_track\<lparr>volume := 1, pan := 1, phase := pi / 2\<rparr>) = 1
   \<and> fst (snd (generate 1 (zero_track\<lparr>volume := 1, pan := 1, phase := pi / 2\<rparr>))) ! 0 = 0
   \<and> snd (snd (generate 1 (zero_track\<lparr>volume := 1, pan := 1, phase := pi / 2\<rparr>))) ! 0 = 0.3
   \<and> pan (zero_track\<lparr>volume := 1, phase := pi / 2\<rparr>) = 0
   \<and> fst (snd (generate 1 (zero_track\<lparr>volume := 1, phase := pi / 2\<rparr>))) ! 0
       = snd (snd (generate 1 (zero_track\<lparr>volume := 1, phase := pi / 2\<rparr>))) ! 0"
  using generate_sample_formula_exact [of 0 1 "zero_track\<lparr>volume := 1, pan := - 1, phase := pi / 2\<rparr>"]
    generate_sample_formula_exact [of 0 1 "zero_track\<lparr>volume := 1, pan := 1, phase := pi / 2\<rparr>"]
    generate_sample_formula_exact [of 0 1 "zero_track\<lparr>volume := 1, phase := pi / 2\<rparr>"]
  by (simp add: zero_track_def)

lemma osc_advance_range:
  assumes "0 \<le> phase track" "phase track \<le> 2 * pi"
    and "0 \<le> frequency track" "frequency track \<le> real_of_int SAMPLE_RATE"
  shows "0 \<le> phase (osc_advance track) \<and> phase (osc_advance track) \<le> 2 * pi"
proof -
  define d where "d = 2 * pi * frequency track / real_of_int SAMPLE_RATE"
  have sr: "0 < real_of_int SAMPLE_RATE" by (simp add: SAMPLE_RATE_def)
  have d0: "0 \<le> d" unfolding d_def using assms(3) sr by simp
  have "frequency track / real_of_int SAMPLE_RATE \<le> 1"
    using assms(4) sr by (simp add: divide_le_eq)
  then have "2 * pi * (frequency track / real_of_int SAMPLE_RATE) \<le> 2 * pi * 1"
    by (intro mult_left_mono) simp_all
  then have d1: "d \<le> 2 * pi" by (simp add: d_def)
  have "phase (osc_advance track) = (if phase track + d > 2 * pi then phase track + d - 2 * pi else phase track + d)"
    by (simp add: osc_advance_def Let_def d_def MA_PI_def)
  with d0 d1 assms(1,2) show ?thesis by auto
qed




subsection \<open>Stability of the one-pole filters\<close>

lemma convex_bound:
  fixes a x s B :: real
  assumes "0 \<le> a" "a \<le> 1" "\<bar>x\<bar> \<le> B" "\<bar>s\<bar> \<le> B"
  shows "\<bar>a * x + (1 - a) * s\<bar> \<le> B"
proof -
  have "\<bar>a * x + (1 - a) * s\<bar> \<le> \<bar>a * x\<bar> + \<bar>(1 - a) * s\<bar>" by (rule abs_triangle_ineq)
  also have "\<dots> = a * \<bar>x\<bar> + (1 - a) * \<bar>s\<bar>" using assms(1,2) by (simp add: abs_mult)
  also have "\<dots> \<le> a * B + (1 - a) * B"
    using assms by (intro add_mono mult_left_mono) simp_all
  also have "\<dots> = B" by (simp add: algebra_simps)
  finally show ?thesis .
qed

lemma lowpass_step:
  assumes "cutoff effect > 0" "\<bar>x\<bar> \<le> 1" "1 \<le> B" "\<bar>s\<bar> \<le> B"
  shows "\<exists>y s'. process_lowpass_effect x effect s = Inr (y, s') \<and> \<bar>y\<bar> \<le> B \<and> \<bar>s'\<bar> \<le> B"
proof (cases "enabled effect")
  case False
  with assms show ?thesis by (simp add: process_lowpass_effect_def)
next
  case True
  let ?a = "cutoff effect / (cutoff effect + 1)"
  have a: "0 \<le> ?a" "?a \<le> 1" using assms(1) by simp_all
  have "\<bar>?a * x + (1 - ?a) * s\<bar> \<le> B"
    using a assms by (intro convex_bound) simp_all
  with True assms(1) show ?thesis
    by (simp add: process_lowpass_effect_def Let_def)
qed

lemma highpass_step:
  assumes "cutoff effect > 0" "\<bar>x\<bar> \<le> 1" "1 \<le> B" "\<bar>s\<bar> \<le> B"
  shows "\<exists>y s'. process_highpass_effect x effect s = Inr (y, s') \<and> \<bar>y\<bar> \<le> 1 + B \<and> \<bar>s'\<bar> \<le> B"
proof (cases "enabled effect")
  case False
  with assms show ?thesis by (simp add: process_highpass_effect_def)
next
  case True
  let ?a = "1 / (cutoff effect + 1)"
  have a: "0 \<le> ?a" "?a \<le> 1" using assms(1) by simp_all
  have "\<bar>?a * x + (1 - ?a) * s\<bar> \<le> B"
    using a assms by (intro convex_bound) simp_all
  moreover have "\<And>a::real. s + a * (x - s) = a * x + (1 - a) * s"
    by (simp add: algebra_simps)
  moreover have "\<bar>x - s\<bar> \<le> 1 + B" using assms(2,4) by simp
  ultimately show ?thesis using True assms(1)
    by (simp add: process_highpass_effect_def Let_def)
qed

lemma filter_frames_bounded:
  assumes step: "\<And>x s. \<bar>x\<bar> \<le> 1 \<Longrightarrow> \<bar>s\<bar> \<le> B \<Longrightarrow>
             \<exists>y s'. p x effect s = Inr (y, s') \<and> \<bar>y\<bar> \<le> C \<and> \<bar>s'\<bar> \<le> B"
    and "\<forall>x \<in> set ls \<union> set rs. \<bar>x\<bar> \<le> 1" and "\<bar>sl\<bar> \<le> B" and "\<bar>sr\<bar> \<le> B"
  shows "\<exists>ls' rs' sl' sr'. filter_frames p effect ls rs sl sr = Inr (ls', rs', sl', sr')
           \<and> (\<forall>y \<in> set ls' \<union> set rs'. \<bar>y\<bar> \<le> C) \<and> \<bar>sl'\<bar> \<le> B \<and> \<bar>sr'\<bar> \<le> B"
  using assms(2-)
proof (induction ls rs arbitrary: sl sr rule: list_induct2')
  case (4 l ls r rs)
  from "4.prems" have l: "\<bar>l\<bar> \<le> 1" and r: "\<bar>r\<bar> \<le> 1"
    and rest: "\<forall>x \<in> set ls \<union> set rs. \<bar>x\<bar> \<le> 1" by auto
  from step [OF l "4.prems"(2)] obtain l' sl' where
    pl: "p l effect sl = Inr (l', sl')" and l': "\<bar>l'\<bar> \<le> C" and sl': "\<bar>sl'\<bar> \<le> B" by blast
  from step [OF r "4.prems"(3)] obtain r' sr' where
    pr: "p r effect sr = Inr (r', sr')" and r': "\<bar>r'\<bar> \<le> C" and sr': "\<bar>sr'\<bar> \<le> B" by blast
  from "4.IH" [OF rest sl' sr'] obtain ls' rs' sl'' sr'' where
    "filter_frames p effect ls rs sl' sr' = Inr (ls', rs', sl'', sr'')"
    "\<forall>y \<in> set ls' \<union> set rs'. \<bar>y\<bar> \<le> C" "\<bar>sl''\<bar> \<le> B" "\<bar>sr''\<bar> \<le> B" by blast
  with pl pr l' r' show ?case by auto
qed auto

text \<open>
  Claim C8: for a filter effect with \<open>cutoff > 0\<close>, any initial filter cells and any input
  with \<open>|x| \<le> 1\<close> on both channels, the frame loop of the lowpass and that of the highpass
  return, over any number of frames, with every output bounded by a number that depends on
  the initial cells only: \<open>max 1 (max |sl| |sr|)\<close> for the lowpass, one more for the
  highpass. The cells stay within the first bound, so the same holds over the following
  periods.
\<close>

theorem filters_bounded:
  assumes "cutoff effect > 0" and "\<forall>x \<in> set ls \<union> set rs. \<bar>x\<bar> \<le> 1"
  shows "(\<exists>ls' rs' sl' sr'.
            filter_frames process_lowpass_effect effect ls rs sl sr = Inr (ls', rs', sl', sr')
          \<and> (\<forall>y \<in> set ls' \<union> set rs'. \<bar>y\<bar> \<le> max 1 (max \<bar>sl\<bar> \<bar>sr\<bar>))
          \<and> \<bar>sl'\<bar> \<le> max 1 (max \<bar>sl\<bar> \<bar>sr\<bar>) \<and> \<bar>sr'\<bar> \<le> max 1 (max \<bar>sl\<bar> \<bar>sr\<bar>))
       \<and> (\<exists>ls' rs' sl' sr'.
            filter_frames process_highpass_effect effect ls rs sl sr = Inr (ls', rs', sl', sr')
          \<and> (\<forall>y \<in> set ls' \<union> set rs'. \<bar>y\<bar> \<le> 1 + max 1 (max \<bar>sl\<bar> \<bar>sr\<bar>))
          \<and> \<bar>sl'\<bar> \<le> max 1 (max \<bar>sl\<bar> \<bar>sr\<bar>) \<and> \<bar>sr'\<bar> \<le> max 1 (max \<bar>sl\<bar> \<bar>sr\<bar>))"
proof -
  let ?B = "max 1 (max \<bar>sl\<bar> \<bar>sr\<bar>)"
  have B: "1 \<le> ?B" "\<bar>sl\<bar> \<le> ?B" "\<bar>sr\<bar> \<le> ?B" by simp_all
  have lp: "\<And>x s. \<bar>x\<bar> \<le> 1 \<Longrightarrow> \<bar>s\<bar> \<le> ?B \<Longrightarrow>
      \<exists>y s'. process_lowpass_effect x effect s = Inr (y, s') \<and> \<bar>y\<bar> \<le> ?B \<and> \<bar>s'\<bar> \<le> ?B"
    using lowpass_step [OF assms(1) _ B(1)] by blast
  have hp: "\<And>x s. \<bar>x\<bar> \<le> 1 \<Longrightarrow> \<bar>s\<bar> \<le> ?B \<Longrightarrow>
      \<exists>y s'. process_highpass_effect x effect s = Inr (y, s') \<and> \<bar>y\<bar> \<le> 1 + ?B \<and> \<bar>s'\<bar> \<le> ?B"
    using highpass_step [OF assms(1) _ B(1)] by blast
  from filter_frames_bounded [of ?B process_lowpass_effect effect ?B, OF lp assms(2) B(2,3)]
       filter_frames_bounded [of ?B process_highpass_effect effect "1 + ?B", OF hp assms(2) B(2,3)]
  show ?thesis by blast
qed

theorem filters_bounded_witness:
  "cutoff (zero_effect\<lparr>etype := EFFECT_LOWPASS, enabled := True, slot0 := 1000\<rparr>) > 0
   \<and> \<bar>1 :: real\<bar> \<le> 1 \<and> \<bar>- 1 :: real\<bar> \<le> 1 \<and> \<bar>1 / 2 :: real\<bar> \<le> 1 \<and> \<bar>0 :: real\<bar> \<le> 1
   \<and> (\<exists>ls' rs' sl' sr'.
         filter_frames process_lowpass_effect
           (zero_effect\<lparr>etype := EFFECT_LOWPASS, enabled := True, slot0 := 1000\<rparr>)
           [1, - 1] [1 / 2, 0] 0 0 = Inr (ls', rs', sl', sr')
       \<and> (\<forall>y \<in> set ls' \<union> set rs'. \<bar>y\<bar> \<le> max 1 (max \<bar>0\<bar> \<bar>0\<bar>))
       \<and> \<bar>sl'\<bar> \<le> max 1 (max \<bar>0\<bar> \<bar>0\<bar>) \<and> \<bar>sr'\<bar> \<le> max 1 (max \<bar>0\<bar> \<bar>0\<bar>))
   \<and> (\<exists>ls' rs' sl' sr'.
         filter_frames process_highpass_effect
           (zero_effect\<lparr>etype := EFFECT_LOWPASS, enabled := True, slot0 := 1000\<rparr>)
           [1, - 1] [1 / 2, 0] 0 0 = Inr (ls', rs', sl', sr')
       \<and> (\<forall>y \<in> set ls' \<union> set rs'. \<bar>y\<bar> \<le> 1 + max 1 (max \<bar>0\<bar> \<bar>0\<bar>))
       \<and> \<bar>sl'\<bar> \<le> max 1 (max \<bar>0\<bar> \<bar>0\<bar>) \<and> \<bar>sr'\<bar> \<le> max 1 (max \<bar>0\<bar> \<bar>0\<bar>))"
proof -
  have a: "cutoff (zero_effect\<lparr>etype := EFFECT_LOWPASS, enabled := True, slot0 := 1000\<rparr>) > 0"
    by simp
  have b: "\<forall>x \<in> set [1, - 1] \<union> set [1 / 2, 0 :: real]. \<bar>x\<bar> \<le> 1"
    by simp
  have b': "\<bar>1 :: real\<bar> \<le> 1 \<and> \<bar>- 1 :: real\<bar> \<le> 1 \<and> \<bar>1 / 2 :: real\<bar> \<le> 1 \<and> \<bar>0 :: real\<bar> \<le> 1"
    by simp
  note c = filters_bounded [OF a b, of 0 0]
  from a b' c show ?thesis
    by (simp only: conj_assoc simp_thms)
qed

subsection \<open>The mixing loop\<close>

lemma any_solo_loop_iff:
  "any_solo_loop ts t n \<longleftrightarrow> (\<exists>u. t \<le> u \<and> u < n \<and> solo (ts ! u))"
proof (induction ts t n rule: any_solo_loop.induct)
  case (1 ts t n)
  show ?case
  proof (cases "t < n")
    case False
    then show ?thesis by (subst any_solo_loop.simps) auto
  next
    case True
    show ?thesis
    proof (cases "solo (ts ! t)")
      case True
      with \<open>t < n\<close> show ?thesis by (subst any_solo_loop.simps) auto
    next
      case False
      have "(\<exists>u. Suc t \<le> u \<and> u < n \<and> solo (ts ! u)) \<longleftrightarrow> (\<exists>u. t \<le> u \<and> u < n \<and> solo (ts ! u))"
        using False by (metis Suc_leD Suc_leI le_neq_implies_less)
      with "1.IH" [OF True False] True False show ?thesis
        by (subst any_solo_loop.simps) simp
    qed
  qed
qed

lemma interleave_length: "length ls = length rs \<Longrightarrow> length (interleave ls rs) = 2 * length ls"
  by (induction ls rs rule: list_induct2) simp_all

lemma mix_meter_out:
  assumes "mix_meter ls rs out track = Inr (out', track')" "length ls = length rs"
  shows "length out' = length out \<and> 2 * length ls \<le> length out
       \<and> (\<forall>j < 2 * length ls. out' ! j = out ! j + interleave ls rs ! j)
       \<and> (\<forall>j \<ge> 2 * length ls. out' ! j = out ! j)"
  using assms(2,1)
proof (induction ls rs arbitrary: out track out' track' rule: list_induct2)
  case Nil
  then show ?case by simp
next
  case (Cons l ls r rs)
  from Cons.prems obtain o0 o1 rest where out: "out = o0 # o1 # rest"
    by (cases out; cases "tl out") auto
  from Cons.prems obtain out1 track1 track3 where
    rec: "mix_meter ls rs rest track3 = Inr (out1, track1)"
    and out': "out' = (o0 + l) # (o1 + r) # out1"
    unfolding out by (auto simp: Let_def bind_result_eq_Inr)
  note IH = Cons.IH [OF rec]
  show ?case
  proof (intro conjI allI impI)
    fix j assume "j < 2 * length (l # ls)"
    then show "out' ! j = out ! j + interleave (l # ls) (r # rs) ! j"
      using IH by (cases j; cases "j - 1") (auto simp: out' out)
  next
    fix j assume "2 * length (l # ls) \<le> j"
    then obtain j' where "j = Suc (Suc j')" "2 * length ls \<le> j'"
      by (cases j; cases "j - 1") auto
    then show "out' ! j = out ! j" using IH by (simp add: out' out)
  qed (use IH in \<open>simp_all add: out' out\<close>)
qed

lemma mix_meter_meters:
  assumes "mix_meter ls rs out track = Inr (out', track')" "length ls = length rs"
  shows "peak_level track' = (peak_of ls (fst (peak_level track)), peak_of rs (snd (peak_level track)))
       \<and> rms_level track' = (fst (rms_level track) + sum_squares ls,
                               snd (rms_level track) + sum_squares rs)"
  using assms(2,1)
proof (induction ls rs arbitrary: out track out' track' rule: list_induct2)
  case Nil
  then show ?case by (simp add: peak_of_def sum_squares_def)
next
  case (Cons l ls r rs)
  from Cons.prems obtain o0 o1 rest where out: "out = o0 # o1 # rest"
    by (cases out; cases "tl out") auto
  define track3 where "track3 = track\<lparr>
      peak_level := (max (fst (peak_level track)) \<bar>l\<bar>, max (snd (peak_level track)) \<bar>r\<bar>),
      rms_level := (fst (rms_level track) + l * l, snd (rms_level track) + r * r)\<rparr>"
  from Cons.prems obtain out1 where
    rec: "mix_meter ls rs rest track3 = Inr (out1, track')"
    unfolding out track3_def
    by (auto simp: Let_def bind_result_eq_Inr max_def split: if_splits)
  from Cons.IH [OF rec] show ?case
    by (simp add: track3_def peak_of_def sum_squares_def algebra_simps)
qed


lemma filter_frames_length:
  assumes "filter_frames p effect ls rs sl sr = Inr (ls', rs', sl', sr')" "length ls = length rs"
  shows "length ls' = length ls \<and> length rs' = length rs"
  using assms(2,1)
proof (induction ls rs arbitrary: sl sr ls' rs' sl' sr' rule: list_induct2)
  case Nil
  then show ?case by simp
next
  case (Cons l ls r rs)
  from Cons.prems obtain l1 sl1 r1 sr1 ls1 rs1 where
    rec: "filter_frames p effect ls rs sl1 sr1 = Inr (ls1, rs1, sl', sr')"
    and res: "ls' = l1 # ls1" "rs' = r1 # rs1"
    by (auto simp: bind_result_eq_Inr)
  from Cons.IH [OF rec] res show ?case by simp
qed

lemma apply_effects_length:
  assumes "apply_effects es left right sl sr = Inr (left', right', sl', sr')"
    and "length left = length right"
  shows "length left' = length left \<and> length right' = length right"
  using assms
proof (induction es arbitrary: left right sl sr)
  case Nil
  then show ?case by simp
next
  case (Cons effect es)
  show ?case
  proof (cases "etype effect")
    case EFFECT_LOWPASS
    with Cons.prems obtain l1 r1 sl1 sr1 where
      f: "filter_frames process_lowpass_effect effect left right sl sr = Inr (l1, r1, sl1, sr1)"
      and rec: "apply_effects es l1 r1 sl1 sr1 = Inr (left', right', sl', sr')"
      by (auto simp: bind_result_eq_Inr)
    from filter_frames_length [OF f Cons.prems(2)] Cons.IH [OF rec] Cons.prems(2)
    show ?thesis by simp
  next
    case EFFECT_HIGHPASS
    with Cons.prems obtain l1 r1 sl1 sr1 where
      f: "filter_frames process_highpass_effect effect left right sl sr = Inr (l1, r1, sl1, sr1)"
      and rec: "apply_effects es l1 r1 sl1 sr1 = Inr (left', right', sl', sr')"
      by (auto simp: bind_result_eq_Inr)
    from filter_frames_length [OF f Cons.prems(2)] Cons.IH [OF rec] Cons.prems(2)
    show ?thesis by simp
  next
    case EFFECT_GAIN
    with Cons.prems Cons.IH [of "map (\<lambda>s. process_gain_effect s effect) left"
        "map (\<lambda>s. process_gain_effect s effect) right" sl sr]
    show ?thesis by simp
  qed (use Cons in simp_all)
qed

lemma osc_advance_meters [simp]:
  "peak_level (osc_advance track) = peak_level track"
  "rms_level (osc_advance track) = rms_level track"
  by (simp_all add: osc_advance_def Let_def)

lemma funpow_osc_meters [simp]:
  "peak_level ((osc_advance ^^ i) track) = peak_level track"
  "rms_level ((osc_advance ^^ i) track) = rms_level track"
  by (induction i) simp_all

lemma render_track_facts:
  assumes "render_track track t n fs = Inr (track2, left, right, fs')"
  shows "length left = n \<and> length right = n
       \<and> peak_level track2 = (0, 0) \<and> rms_level track2 = (0, 0)
       \<and> (\<forall>u. u \<noteq> t \<longrightarrow> fst fs' ! u = fst fs ! u \<and> snd fs' ! u = snd fs ! u)"
proof -
  let ?track1 = "track\<lparr>peak_level := (0, 0), rms_level := (0, 0)\<rparr>"
  obtain tr2 tl tr where g: "generate n ?track1 = (tr2, tl, tr)"
    by (cases "generate n ?track1") auto
  from generate_length [of n ?track1] g have len: "length tl = n" "length tr = n" by simp_all
  from generate_track [of n ?track1] g have tr2: "tr2 = (osc_advance ^^ n) ?track1" by simp
  have m: "peak_level tr2 = (0, 0)" "rms_level tr2 = (0, 0)" by (simp_all add: tr2)
  show ?thesis
  proof (cases "effect_count tr2 > 0")
    case False
    with assms g len m show ?thesis
      by (auto simp: render_track_def Let_def split: if_splits)
  next
    case True
    with assms g obtain sl sr where
      a: "apply_effects (take (nat (effect_count tr2)) (effects tr2)) tl tr
            (fst fs ! t) (snd fs ! t) = Inr (left, right, sl, sr)"
      and fs': "fs' = ((fst fs)[t := sl], (snd fs)[t := sr])"
      and t2: "track2 = tr2"
      by (auto simp: render_track_def Let_def process_track_effects_def bind_result_eq_Inr
          split: if_splits)
    from apply_effects_length [OF a] len have "length left = n" "length right = n" by simp_all
    with m t2 fs' show ?thesis by simp
  qed
qed

lemma render_track_cells:
  assumes "render_track track t n fs = Inr (track2, left, right, fs')"
    and "fst fs2 ! t = fst fs ! t" "snd fs2 ! t = snd fs ! t"
  shows "\<exists>fs2'. render_track track t n fs2 = Inr (track2, left, right, fs2')"
  using assms
  by (auto simp: render_track_def Let_def process_track_effects_def bind_result_eq_Inr
      split: if_splits prod.splits)


lemma mix_track_skipped:
  "track_skipped a (ts ! t) \<Longrightarrow> mix_track a n t (ts, fs, out) = Inr (ts, fs, out)"
  by (simp add: mix_track_def)

lemma mix_track_included:
  assumes "mix_track a n t (ts, fs, out) = Inr (ts', fs', out')"
    and "\<not> track_skipped a (ts ! t)" and "t < length ts"
  shows "\<exists>track2 left right.
           render_track (ts ! t) t n fs = Inr (track2, left, right, fs')
         \<and> n \<noteq> 0 \<and> length ts' = length ts \<and> (\<forall>u. u \<noteq> t \<longrightarrow> ts' ! u = ts ! u)
         \<and> peak_level (ts' ! t) = (peak_of left 0, peak_of right 0)
         \<and> rms_level (ts' ! t)
             = (sqrt (sum_squares left / real n), sqrt (sum_squares right / real n))
         \<and> length out' = length out
         \<and> (\<forall>j < 2 * n. out' ! j = out ! j + interleave left right ! j)"
proof -
  from assms(1,2) obtain track2 left right track3 track4 where
    r: "render_track (ts ! t) t n fs = Inr (track2, left, right, fs')"
    and m: "mix_meter left right out track2 = Inr (out', track3)"
    and f: "finalize_rms n track3 = Inr track4"
    and ts': "ts' = ts[t := track4]"
    by (auto simp: mix_track_def bind_result_eq_Inr)
  from render_track_facts [OF r] have len: "length left = n" "length right = n"
    and z: "peak_level track2 = (0, 0)" "rms_level track2 = (0, 0)" by simp_all
  from len have lr: "length left = length right" by simp
  note o = mix_meter_out [OF m lr]
  note mm = mix_meter_meters [OF m lr]
  from f have n0: "n \<noteq> 0"
    and t4: "track4 = track3\<lparr>rms_level := (sqrt (fst (rms_level track3) / real n),
                                              sqrt (snd (rms_level track3) / real n))\<rparr>"
    by (auto simp: finalize_rms_def split: if_splits)
  have pk: "peak_level (ts' ! t) = (peak_of left 0, peak_of right 0)"
    using assms(3) mm z by (simp add: ts' t4)
  have rm: "rms_level (ts' ! t)
             = (sqrt (sum_squares left / real n), sqrt (sum_squares right / real n))"
    using assms(3) mm z by (simp add: ts' t4)
  from r n0 ts' pk rm o len show ?thesis by auto
qed

lemma mix_tracks_append:
  "mix_tracks a n (xs @ ys) st = bind_result (mix_tracks a n xs st) (mix_tracks a n ys)"
proof (induction xs arbitrary: st)
  case Nil
  then show ?case by simp
next
  case (Cons x xs)
  show ?case
    by (cases "mix_track a n x st") (simp_all add: Cons.IH)
qed

lemma included_tracks_Suc:
  "included_tracks a ts (Suc k) =
     (if track_skipped a (ts ! k) then included_tracks a ts k else insert k (included_tracks a ts k))"
  by (auto simp: included_tracks_def less_Suc_eq)

lemma included_tracks_finite [simp]: "finite (included_tracks a ts k)"
  by (simp add: included_tracks_def)

lemma included_tracks_fresh [simp]: "k \<notin> included_tracks a ts k"
  by (simp add: included_tracks_def)

lemma mix_tracks_inv:
  assumes "mix_tracks a n [0..<k] (ts0, fs0, out0) = Inr (ts, fs, out)" and "k \<le> length ts0"
  shows "length ts = length ts0 \<and> length out = length out0
       \<and> (\<forall>u \<ge> k. ts ! u = ts0 ! u \<and> fst fs ! u = fst fs0 ! u \<and> snd fs ! u = snd fs0 ! u)
       \<and> (\<forall>u < k. track_skipped a (ts0 ! u) \<longrightarrow>
            ts ! u = ts0 ! u \<and> fst fs ! u = fst fs0 ! u \<and> snd fs ! u = snd fs0 ! u)
       \<and> (\<forall>u < k. \<not> track_skipped a (ts0 ! u) \<longrightarrow>
            (\<exists>track2 left right fs'.
               render_track (ts0 ! u) u n fs0 = Inr (track2, left, right, fs')
             \<and> n \<noteq> 0
             \<and> peak_level (ts ! u) = (peak_of left 0, peak_of right 0)
             \<and> rms_level (ts ! u)
                 = (sqrt (sum_squares left / real n), sqrt (sum_squares right / real n))))
       \<and> (\<forall>j < 2 * n. out ! j = out0 ! j + (\<Sum>u \<in> included_tracks a ts0 k. track_samples ts0 fs0 n u ! j))"
  using assms
proof (induction k arbitrary: ts fs out)
  case 0
  then show ?case by (simp add: included_tracks_def)
next
  case (Suc k)
  from Suc.prems(1) obtain ts1 fs1 out1 where
    before: "mix_tracks a n [0..<k] (ts0, fs0, out0) = Inr (ts1, fs1, out1)"
    and step: "mix_track a n k (ts1, fs1, out1) = Inr (ts, fs, out)"
    by (auto simp: mix_tracks_append bind_result_eq_Inr)
  from Suc.prems(2) have k: "k \<le> length ts0" "k < length ts0" by simp_all
  note IH = Suc.IH [OF before k(1)]
  from IH have len1: "length ts1 = length ts0" "length out1 = length out0"
    and same1: "ts1 ! k = ts0 ! k" "fst fs1 ! k = fst fs0 ! k" "snd fs1 ! k = snd fs0 ! k"
    by simp_all
  show ?case
  proof (cases "track_skipped a (ts0 ! k)")
    case True
    with step same1 have eq: "ts = ts1" "fs = fs1" "out = out1"
      by (simp_all add: mix_track_skipped)
    have "\<forall>u < Suc k. track_skipped a (ts0 ! u) \<longrightarrow>
            ts1 ! u = ts0 ! u \<and> fst fs1 ! u = fst fs0 ! u \<and> snd fs1 ! u = snd fs0 ! u"
      using IH same1 by (auto simp: less_Suc_eq)
    moreover have "\<forall>u < Suc k. \<not> track_skipped a (ts0 ! u) \<longrightarrow>
            (\<exists>track2 left right fs'.
               render_track (ts0 ! u) u n fs0 = Inr (track2, left, right, fs')
             \<and> n \<noteq> 0
             \<and> peak_level (ts1 ! u) = (peak_of left 0, peak_of right 0)
             \<and> rms_level (ts1 ! u)
                 = (sqrt (sum_squares left / real n), sqrt (sum_squares right / real n)))"
      using IH True by (auto simp: less_Suc_eq)
    ultimately show ?thesis
      using IH True by (simp add: eq included_tracks_Suc)
  next
    case False
    with same1 have inc: "\<not> track_skipped a (ts1 ! k)" by simp
    from k len1 have k1: "k < length ts1" by simp
    from mix_track_included [OF step inc k1] obtain track2 left right where
      r1: "render_track (ts1 ! k) k n fs1 = Inr (track2, left, right, fs)"
      and n0: "n \<noteq> 0" and len: "length ts = length ts1"
      and other: "\<forall>u. u \<noteq> k \<longrightarrow> ts ! u = ts1 ! u"
      and pk: "peak_level (ts ! k) = (peak_of left 0, peak_of right 0)"
      and rm: "rms_level (ts ! k)
                = (sqrt (sum_squares left / real n), sqrt (sum_squares right / real n))"
      and olen: "length out = length out1"
      and o: "\<forall>j < 2 * n. out ! j = out1 ! j + interleave left right ! j"
      by blast
    from render_track_cells [OF r1 [unfolded same1(1)], of fs0] same1 obtain fs0' where
      r0: "render_track (ts0 ! k) k n fs0 = Inr (track2, left, right, fs0')" by auto
    from render_track_facts [OF r1] have
      cells: "\<forall>u. u \<noteq> k \<longrightarrow> fst fs ! u = fst fs1 ! u \<and> snd fs ! u = snd fs1 ! u" by simp
    have s: "track_samples ts0 fs0 n k = interleave left right"
      by (simp add: track_samples_def r0)
    have A: "length ts = length ts0 \<and> length out = length out0"
      using len len1 olen by simp
    have B: "\<forall>u \<ge> Suc k. ts ! u = ts0 ! u \<and> fst fs ! u = fst fs0 ! u \<and> snd fs ! u = snd fs0 ! u"
      using IH other cells by auto
    have C: "\<forall>u < Suc k. track_skipped a (ts0 ! u) \<longrightarrow>
            ts ! u = ts0 ! u \<and> fst fs ! u = fst fs0 ! u \<and> snd fs ! u = snd fs0 ! u"
      using IH other cells False by (auto simp: less_Suc_eq)
    have D: "\<forall>u < Suc k. \<not> track_skipped a (ts0 ! u) \<longrightarrow>
            (\<exists>track2 left right fs'.
               render_track (ts0 ! u) u n fs0 = Inr (track2, left, right, fs')
             \<and> n \<noteq> 0
             \<and> peak_level (ts ! u) = (peak_of left 0, peak_of right 0)
             \<and> rms_level (ts ! u)
                 = (sqrt (sum_squares left / real n), sqrt (sum_squares right / real n)))"
    proof (intro allI impI)
      fix u assume u: "u < Suc k" "\<not> track_skipped a (ts0 ! u)"
      show "\<exists>track2 left right fs'.
               render_track (ts0 ! u) u n fs0 = Inr (track2, left, right, fs')
             \<and> n \<noteq> 0
             \<and> peak_level (ts ! u) = (peak_of left 0, peak_of right 0)
             \<and> rms_level (ts ! u)
                 = (sqrt (sum_squares left / real n), sqrt (sum_squares right / real n))"
      proof (cases "u = k")
        case True
        with r0 n0 pk rm show ?thesis by blast
      next
        case False
        with u have "u < k" by simp
        with IH u(2) other False show ?thesis by simp
      qed
    qed
    have E: "\<forall>j < 2 * n. out ! j = out0 ! j + (\<Sum>u \<in> included_tracks a ts0 (Suc k). track_samples ts0 fs0 n u ! j)"
      using IH o False by (simp add: included_tracks_Suc s)
    from A B C D E show ?thesis by blast
  qed
qed


lemma master_loop_facts:
  assumes "master_loop n out engine = Inr (out', engine')"
  shows "tracks engine' = tracks engine \<and> length out' = length out
       \<and> (\<forall>j < 2 * n. out' ! j = out ! j * master_volume engine)"
  using assms
proof (induction n arbitrary: out engine out' engine')
  case 0
  then show ?case by simp
next
  case (Suc n)
  from Suc.prems obtain o0 o1 rest where out: "out = o0 # o1 # rest"
    by (cases out; cases "tl out") auto
  from Suc.prems obtain e3 out1 where
    rec: "master_loop n rest e3 = Inr (out1, engine')"
    and e3: "tracks e3 = tracks engine" "master_volume e3 = master_volume engine"
    and out': "out' = o0 * master_volume engine # o1 * master_volume engine # out1"
    unfolding out by (auto simp: Let_def bind_result_eq_Inr split: if_splits)
  note IH = Suc.IH [OF rec]
  show ?case
  proof (intro conjI allI impI)
    fix j assume "j < 2 * Suc n"
    then show "out' ! j = out ! j * master_volume engine"
      using IH e3 by (cases j; cases "j - 1") (auto simp: out' out)
  qed (use IH e3 in \<open>simp_all add: out' out\<close>)
qed

lemma track_skipped_iff:
  "track_skipped (any_solo_loop ts 0 n) track \<longleftrightarrow>
     mute track \<or> \<not> playing track \<or> ((\<exists>u < n. solo (ts ! u)) \<and> \<not> solo track)"
  by (auto simp: track_skipped_def any_solo_loop_iff)

lemma audio_callback_playing:
  assumes "audio_callback engine fs out frame_count = Inr (engine', fs', out')"
    and "engine_playing engine"
  shows "\<exists>out0 ts out1 e2.
           memset_zero (unat (frame_count * word_of_int CHANNELS)) out = Inr out0
         \<and> unat frame_count < 2 ^ 31 \<and> track_count engine \<le> MAX_TRACKS \<and> frame_count \<noteq> 0
         \<and> mix_tracks (any_solo_loop (tracks engine) 0 (nat (track_count engine)))
              (unat frame_count) [0..<nat (track_count engine)] (tracks engine, fs, out0)
             = Inr (ts, fs', out1)
         \<and> master_loop (unat frame_count) out1
              (engine\<lparr>master_peak := (0, 0), master_rms := (0, 0), tracks := ts\<rparr>)
             = Inr (out', e2)
         \<and> tracks engine' = tracks e2"
  using assms
  by (auto simp: audio_callback_def Let_def bind_result_eq_Inr split: if_splits)


lemma audio_callback_mix:
  assumes cb: "audio_callback engine fs out frame_count = Inr (engine', fs', out')"
    and pl: "engine_playing engine" and wf: "engine_wf engine"
  shows "(\<forall>u < nat (track_count engine).
            track_skipped (any_solo_loop (tracks engine) 0 (nat (track_count engine)))
              (tracks engine ! u) \<longrightarrow>
            tracks engine' ! u = tracks engine ! u
          \<and> fst fs' ! u = fst fs ! u \<and> snd fs' ! u = snd fs ! u)
       \<and> (\<forall>u < nat (track_count engine).
            \<not> track_skipped (any_solo_loop (tracks engine) 0 (nat (track_count engine)))
              (tracks engine ! u) \<longrightarrow>
            (\<exists>track2 left right fs2.
               render_track (tracks engine ! u) u (unat frame_count) fs
                 = Inr (track2, left, right, fs2)
             \<and> unat frame_count \<noteq> 0
             \<and> peak_level (tracks engine' ! u) = (peak_of left 0, peak_of right 0)
             \<and> rms_level (tracks engine' ! u)
                 = (sqrt (sum_squares left / real (unat frame_count)),
                    sqrt (sum_squares right / real (unat frame_count)))))
       \<and> (\<forall>j < 2 * unat frame_count.
            out' ! j = master_volume engine *
              (\<Sum>u \<in> included_tracks (any_solo_loop (tracks engine) 0 (nat (track_count engine)))
                        (tracks engine) (nat (track_count engine)).
                 track_samples (tracks engine) fs (unat frame_count) u ! j))"
proof -
  let ?n = "nat (track_count engine)"
  let ?a = "any_solo_loop (tracks engine) 0 ?n"
  let ?f = "unat frame_count"
  from audio_callback_playing [OF cb pl] obtain out0 ts out1 e2 where
    ms: "memset_zero (unat (frame_count * word_of_int CHANNELS)) out = Inr out0"
    and small: "?f < 2 ^ 31" and tc: "track_count engine \<le> MAX_TRACKS"
    and mix: "mix_tracks ?a ?f [0..<?n] (tracks engine, fs, out0) = Inr (ts, fs', out1)"
    and ml: "master_loop ?f out1
              (engine\<lparr>master_peak := (0, 0), master_rms := (0, 0), tracks := ts\<rparr>)
             = Inr (out', e2)"
    and tr: "tracks engine' = tracks e2"
    by blast
  from wf tc have k: "?n \<le> length (tracks engine)"
    unfolding engine_wf_def by linarith
  note inv = mix_tracks_inv [OF mix k]
  from master_loop_facts [OF ml] have ts: "tracks e2 = ts"
    and scaled: "\<forall>j < 2 * ?f. out' ! j = out1 ! j * master_volume engine"
    by simp_all
  from ms small have zero: "\<forall>j < 2 * ?f. out0 ! j = 0"
    by (auto simp: memset_zero_def unat_frames nth_append split: if_splits)
  have "\<forall>j < 2 * ?f. out' ! j = master_volume engine *
          (\<Sum>u \<in> included_tracks ?a (tracks engine) ?n. track_samples (tracks engine) fs ?f u ! j)"
    using inv scaled zero by (simp add: mult.commute)
  with inv show ?thesis by (simp add: tr ts)
qed

subsection \<open>The callback returns\<close>

text \<open>
  The callback has a result (no access outside an array, no division by zero) on every
  engine with at most 16 tracks, each with at most 8 effects and no enabled filter of
  cutoff \<open>-1\<close>, for a period of 1 to 512 frames and an output buffer that holds them.
\<close>

lemma bind_returns:
  "\<exists>a b. m = Inr (a, b) \<Longrightarrow> (\<And>a b. \<exists>c d. f (a, b) = Inr (c, d)) \<Longrightarrow>
   \<exists>c d. bind_result m f = Inr (c, d)"
  by auto

lemma filter_frames_returns:
  assumes "\<And>x s. \<exists>y s'. p x effect s = Inr (y, s')"
  shows "\<exists>ls' rs' sl' sr'. filter_frames p effect ls rs sl sr = Inr (ls', rs', sl', sr')"
proof (induction ls rs arbitrary: sl sr rule: list_induct2')
  case (4 l ls r rs)
  from assms obtain l' sl' where pl: "p l effect sl = Inr (l', sl')" by blast
  from assms obtain r' sr' where pr: "p r effect sr = Inr (r', sr')" by blast
  from "4.IH" [of sl' sr'] obtain ls' rs' sl'' sr'' where
    "filter_frames p effect ls rs sl' sr' = Inr (ls', rs', sl'', sr'')" by blast
  with pl pr show ?case by simp
qed simp_all

lemma apply_effects_returns:
  assumes "list_all effect_finite es"
  shows "\<exists>left' right' sl' sr'. apply_effects es left right sl sr = Inr (left', right', sl', sr')"
  using assms
proof (induction es arbitrary: left right sl sr)
  case Nil
  then show ?case by simp
next
  case (Cons effect es)
  then have ok: "effect_finite effect" and rest: "list_all effect_finite es" by simp_all
  note IH = Cons.IH [OF rest]
  show ?case
  proof (cases "etype effect")
    case EFFECT_LOWPASS
    with ok have "\<And>x s. \<exists>y s'. process_lowpass_effect x effect s = Inr (y, s')"
      by (simp add: process_lowpass_effect_def effect_finite_def Let_def)
    from filter_frames_returns [of process_lowpass_effect effect, OF this] obtain l1 r1 sl1 sr1
      where "filter_frames process_lowpass_effect effect left right sl sr = Inr (l1, r1, sl1, sr1)"
      by blast
    with IH [of l1 r1 sl1 sr1] EFFECT_LOWPASS show ?thesis by simp
  next
    case EFFECT_HIGHPASS
    with ok have "\<And>x s. \<exists>y s'. process_highpass_effect x effect s = Inr (y, s')"
      by (simp add: process_highpass_effect_def effect_finite_def Let_def)
    from filter_frames_returns [of process_highpass_effect effect, OF this] obtain l1 r1 sl1 sr1
      where "filter_frames process_highpass_effect effect left right sl sr = Inr (l1, r1, sl1, sr1)"
      by blast
    with IH [of l1 r1 sl1 sr1] EFFECT_HIGHPASS show ?thesis by simp
  qed (use IH in simp_all)
qed

lemma osc_advance_effects [simp]:
  "effects (osc_advance track) = effects track"
  "effect_count (osc_advance track) = effect_count track"
  by (simp_all add: osc_advance_def Let_def)

lemma funpow_osc_effects [simp]:
  "effects ((osc_advance ^^ i) track) = effects track"
  "effect_count ((osc_advance ^^ i) track) = effect_count track"
  by (induction i) simp_all

lemma render_track_returns:
  assumes "track_defined track" and "int n \<le> BUFFER_SIZE" and "int t < MAX_TRACKS"
  shows "\<exists>track2 left right fs'. render_track track t n fs = Inr (track2, left, right, fs')"
proof -
  let ?track1 = "track\<lparr>peak_level := (0, 0), rms_level := (0, 0)\<rparr>"
  obtain tr2 tl tr where g: "generate n ?track1 = (tr2, tl, tr)"
    by (cases "generate n ?track1") auto
  from generate_track [of n ?track1] g have tr2: "tr2 = (osc_advance ^^ n) ?track1" by simp
  have e: "effects tr2 = effects track" "effect_count tr2 = effect_count track"
    by (simp_all add: tr2)
  from assms(1) have c: "effect_count track \<le> MAX_EFFECTS_PER_TRACK"
    and ok: "list_all effect_finite (take (nat (effect_count track)) (effects track))"
    by (simp_all add: track_defined_def)
  from apply_effects_returns [OF ok] obtain l1 r1 sl1 sr1 where
    "apply_effects (take (nat (effect_count track)) (effects track)) tl tr
       (fst fs ! t) (snd fs ! t) = Inr (l1, r1, sl1, sr1)"
    by blast
  with g e c assms(2,3) show ?thesis
    by (simp add: render_track_def process_track_effects_def Let_def)
qed

lemma mix_meter_returns:
  assumes "length ls = length rs" and "2 * length ls \<le> length out"
  shows "\<exists>out' track'. mix_meter ls rs out track = Inr (out', track')"
  using assms
proof (induction ls rs arbitrary: out track rule: list_induct2)
  case Nil
  then show ?case by simp
next
  case (Cons l ls r rs)
  from Cons.prems obtain o0 o1 rest where out: "out = o0 # o1 # rest"
    by (cases out; cases "tl out") auto
  with Cons.prems have "2 * length ls \<le> length rest" by simp
  note IH = Cons.IH [OF this]
  show ?case
    unfolding out
    apply (simp only: mix_meter.simps Let_def)
    apply (rule bind_returns)
     apply (rule IH)
    apply simp
    done
qed

lemma mix_track_returns:
  assumes "track_defined (ts ! t)" and "0 < n" and "int n \<le> BUFFER_SIZE"
    and "int t < MAX_TRACKS" and "2 * n \<le> length out"
  shows "\<exists>ts' fs' out'. mix_track a n t (ts, fs, out) = Inr (ts', fs', out')"
proof (cases "track_skipped a (ts ! t)")
  case True
  then show ?thesis by (simp add: mix_track_def)
next
  case False
  from render_track_returns [OF assms(1,3,4)] obtain track2 left right fs' where
    r: "render_track (ts ! t) t n fs = Inr (track2, left, right, fs')" by blast
  from render_track_facts [OF r] have len: "length left = n" "length right = n" by simp_all
  with assms(5) have "length left = length right" "2 * length left \<le> length out" by simp_all
  from mix_meter_returns [OF this] obtain out' track3 where
    m: "mix_meter left right out track2 = Inr (out', track3)" by blast
  from False r m assms(2) show ?thesis
    by (simp add: mix_track_def finalize_rms_def)
qed

lemma mix_tracks_returns:
  assumes "\<forall>t < k. track_defined (ts0 ! t)" and "k \<le> length ts0" and "int k \<le> MAX_TRACKS"
    and "0 < n" and "int n \<le> BUFFER_SIZE" and "2 * n \<le> length out0"
  shows "\<exists>ts fs out. mix_tracks a n [0..<k] (ts0, fs0, out0) = Inr (ts, fs, out)"
  using assms(1-3)
proof (induction k)
  case 0
  then show ?case by simp
next
  case (Suc k)
  from Suc.prems have p: "\<forall>t < k. track_defined (ts0 ! t)" "k \<le> length ts0"
    "int k \<le> MAX_TRACKS" by simp_all
  from Suc.IH [OF p] obtain ts1 fs1 out1 where
    before: "mix_tracks a n [0..<k] (ts0, fs0, out0) = Inr (ts1, fs1, out1)"
    by blast
  from Suc.prems have k: "k \<le> length ts0" by simp
  from mix_tracks_inv [OF before k] have same: "ts1 ! k = ts0 ! k"
    and len: "length out1 = length out0" by simp_all
  from Suc.prems(1) same have d: "track_defined (ts1 ! k)" by simp
  from Suc.prems(3) have t: "int k < MAX_TRACKS" by simp
  from assms(6) len have o: "2 * n \<le> length out1" by simp
  from mix_track_returns [OF d assms(4,5) t o] obtain ts fs out where
    "mix_track a n k (ts1, fs1, out1) = Inr (ts, fs, out)" by blast
  with before show ?case by (simp add: mix_tracks_append)
qed

lemma master_loop_returns:
  assumes "2 * n \<le> length out"
  shows "\<exists>out' engine'. master_loop n out engine = Inr (out', engine')"
  using assms
proof (induction n arbitrary: out engine)
  case 0
  then show ?case by simp
next
  case (Suc n)
  from Suc.prems obtain o0 o1 rest where out: "out = o0 # o1 # rest"
    by (cases out; cases "tl out") auto
  with Suc.prems have "2 * n \<le> length rest" by simp
  note IH = Suc.IH [OF this]
  show ?case
    unfolding out
    apply (simp only: master_loop.simps Let_def)
    apply (rule bind_returns)
     apply (rule IH)
    apply simp
    done
qed

lemma audio_callback_returns:
  assumes "engine_wf engine" and "track_count engine \<le> MAX_TRACKS"
    and "\<forall>t < nat (track_count engine). track_defined (tracks engine ! t)"
    and "0 < unat frame_count" and "int (unat frame_count) \<le> BUFFER_SIZE"
    and "2 * unat frame_count \<le> length out"
  shows "\<exists>r. audio_callback engine fs out frame_count = Inr r"
proof -
  let ?n = "nat (track_count engine)"
  let ?f = "unat frame_count"
  let ?a = "any_solo_loop (tracks engine) 0 ?n"
  from assms(5) have "?f \<le> 512" unfolding BUFFER_SIZE_def by linarith
  then have small: "?f < 2 ^ 31" by simp
  with assms(6) obtain out0 where
    ms: "memset_zero (unat (frame_count * word_of_int CHANNELS)) out = Inr out0"
    and len0: "length out0 = length out"
    by (simp add: memset_zero_def unat_frames)
  from assms(4) have nz: "frame_count \<noteq> 0" by auto
  show ?thesis
  proof (cases "engine_playing engine")
    case False
    with ms show ?thesis by (simp add: audio_callback_def)
  next
    case True
    from assms(1,2) have k: "?n \<le> length (tracks engine)" "int ?n \<le> MAX_TRACKS"
      unfolding engine_wf_def by linarith+
    from assms(6) len0 have o: "2 * ?f \<le> length out0" by simp
    from mix_tracks_returns [OF assms(3) k assms(4,5) o] obtain ts fs' out1 where
      mix: "mix_tracks ?a ?f [0..<?n] (tracks engine, fs, out0) = Inr (ts, fs', out1)"
      by blast
    from mix_tracks_inv [OF mix k(1)] o have "2 * ?f \<le> length out1" by simp
    from master_loop_returns [OF this] obtain out2 e2 where
      "master_loop ?f out1 (engine\<lparr>master_peak := (0, 0), master_rms := (0, 0), tracks := ts\<rparr>)
         = Inr (out2, e2)"
      by blast
    with True ms small assms(2) mix nz show ?thesis
      by (simp add: audio_callback_def Let_def)
  qed
qed

subsection \<open>The meters as functions of the samples\<close>

lemma peak_of_ge: "p \<le> peak_of xs p \<and> (\<forall>x \<in> set xs. \<bar>x\<bar> \<le> peak_of xs p)"
  unfolding peak_of_def
proof (induction xs arbitrary: p)
  case Nil
  then show ?case by simp
next
  case (Cons x xs)
  from Cons.IH [of "max p \<bar>x\<bar>"] show ?case by auto
qed

lemma peak_of_mem: "peak_of xs p \<in> insert p (abs ` set xs)"
  unfolding peak_of_def
proof (induction xs arbitrary: p)
  case Nil
  then show ?case by simp
next
  case (Cons x xs)
  from Cons.IH [of "max p \<bar>x\<bar>"] show ?case by (auto simp: max_def split: if_splits)
qed

lemma peak_of_Max:
  assumes "xs \<noteq> []"
  shows "peak_of xs 0 = Max (abs ` set xs)"
proof -
  have mem: "peak_of xs 0 \<in> abs ` set xs"
  proof (cases "peak_of xs 0 = 0")
    case False
    with peak_of_mem [of xs 0] show ?thesis by auto
  next
    case True
    from assms obtain x where x: "x \<in> set xs" by (cases xs) auto
    with peak_of_ge [of 0 xs] True have "\<bar>x\<bar> = 0" by auto
    with x True show ?thesis by force
  qed
  have "\<And>y. y \<in> abs ` set xs \<Longrightarrow> y \<le> peak_of xs 0"
    using peak_of_ge [of 0 xs] by auto
  with mem show ?thesis by (intro Max_eqI [symmetric]) simp_all
qed

lemma sum_squares_power: "sum_squares xs = (\<Sum>x\<leftarrow>xs. x\<^sup>2)"
  by (simp add: sum_squares_def power2_eq_square)

lemma sum_squares_bound:
  assumes "\<forall>x \<in> set xs. \<bar>x\<bar> \<le> M"
  shows "0 \<le> sum_squares xs \<and> sum_squares xs \<le> real (length xs) * M\<^sup>2"
  using assms
proof (induction xs)
  case Nil
  then show ?case by (simp add: sum_squares_def)
next
  case (Cons x xs)
  then have "\<bar>x\<bar> \<le> M" by simp
  then have "x * x \<le> M\<^sup>2"
    by (metis abs_le_square_iff abs_of_nonneg abs_ge_zero order_trans power2_eq_square)
  moreover from Cons have "0 \<le> sum_squares xs \<and> sum_squares xs \<le> real (length xs) * M\<^sup>2"
    by simp
  ultimately show ?case by (simp add: sum_squares_def algebra_simps)
qed

lemma rms_le_peak:
  assumes "xs \<noteq> []"
  shows "0 \<le> sqrt (sum_squares xs / real (length xs))
       \<and> sqrt (sum_squares xs / real (length xs)) \<le> peak_of xs 0"
proof -
  let ?M = "peak_of xs 0"
  let ?n = "real (length xs)"
  from assms have n: "0 < ?n" by simp
  from peak_of_ge [of 0 xs] have M0: "0 \<le> ?M" and b: "\<forall>x \<in> set xs. \<bar>x\<bar> \<le> ?M" by simp_all
  from sum_squares_bound [OF b] have s0: "0 \<le> sum_squares xs"
    and s1: "sum_squares xs \<le> ?n * ?M\<^sup>2" by simp_all
  from s1 n have "sum_squares xs / ?n \<le> ?M\<^sup>2"
    by (simp add: divide_le_eq mult.commute)
  then have "sqrt (sum_squares xs / ?n) \<le> sqrt (?M\<^sup>2)"
    by (simp only: real_sqrt_le_iff)
  moreover from M0 have "sqrt (?M\<^sup>2) = ?M" by simp
  ultimately have "sqrt (sum_squares xs / ?n) \<le> ?M" by simp
  moreover from s0 n have "0 \<le> sqrt (sum_squares xs / ?n)" by simp
  ultimately show ?thesis by simp
qed

subsection \<open>The example engine\<close>

lemma demo_wf: "engine_wf demo_engine"
  by (simp add: demo_engine_def engine_wf_def zero_engine_def list_all_length track_wf_def
      zero_track_def constants_defs nth_list_update)

lemma demo_tracks:
  "tracks demo_engine ! 0 = zero_track\<lparr>playing := True, volume := 1, pan := - 1, phase := pi / 2\<rparr>"
  "tracks demo_engine ! 1 = zero_track\<lparr>playing := True, mute := True,
                         peak_level := (1 / 2, 1 / 2), rms_level := (1 / 4, 1 / 4)\<rparr>"
  "tracks demo_engine ! Suc 0 = zero_track\<lparr>playing := True, mute := True,
                         peak_level := (1 / 2, 1 / 2), rms_level := (1 / 4, 1 / 4)\<rparr>"
  "track_count demo_engine = 2" "engine_playing demo_engine" "master_volume demo_engine = 1"
  by (simp_all add: demo_engine_def zero_engine_def)

lemma demo_any_solo: "any_solo_loop (tracks demo_engine) 0 2 = False"
  by (simp add: any_solo_loop.simps demo_tracks zero_track_def)

lemma replicate_two: "replicate 2 x = [x, x]"
  by (simp add: numeral_2_eq_2)

lemma demo_runs: "\<exists>r. audio_callback demo_engine zero_filter_state [5, 5] 1 = Inr r"
  unfolding audio_callback_def
  by (simp add: demo_tracks demo_any_solo Let_def memset_zero_def constants_defs upt_rec
      mix_track_def track_skipped_def render_track_def zero_track_def osc_advance_def
      finalize_rms_def replicate_two MA_PI_def)


lemma demo_samples:
  "render_track (tracks demo_engine ! 0) 0 (Suc 0) zero_filter_state
     = Inr (zero_track\<lparr>playing := True, volume := 1, pan := - 1, phase := pi / 2\<rparr>,
            [3 / 10], [0], zero_filter_state)"
  by (simp add: demo_tracks render_track_def Let_def constants_defs zero_track_def
      osc_advance_def MA_PI_def)

lemma demo_no_solo:
  "\<not> (\<exists>u < Suc (Suc 0). solo (tracks demo_engine ! u))"
  "\<not> (\<exists>u < nat (track_count demo_engine). solo (tracks demo_engine ! u))"
proof -
  have a: "\<not> solo (tracks demo_engine ! 0)" "\<not> solo (tracks demo_engine ! Suc 0)"
    by (simp_all add: demo_tracks zero_track_def)
  have "\<And>u. u < Suc (Suc 0) \<Longrightarrow> u = 0 \<or> u = Suc 0" by arith
  with a show "\<not> (\<exists>u < Suc (Suc 0). solo (tracks demo_engine ! u))" by blast
  then show "\<not> (\<exists>u < nat (track_count demo_engine). solo (tracks demo_engine ! u))"
    by (simp add: demo_tracks(4) numeral_2_eq_2)
qed

lemma sqrt_demo: "sqrt (9 / 100) = 3 / 10"
  by (rule real_sqrt_unique) (simp_all add: power2_eq_square)

subsection \<open>Which tracks are mixed\<close>

text \<open>
  Claim C1: when the engine is playing and the callback returns, every track below
  \<open>track_count\<close> that is muted, or not playing, or not soloed while some track below
  \<open>track_count\<close> is soloed, is left exactly as it was (as are its filter cells), and its
  term in the mix is zero; every other track below \<open>track_count\<close> contributes the
  \<open>2 * frame_count\<close> samples rendered for it. Each output sample is the master volume
  times the sum of these terms. A muted track satisfies the first disjunct whatever its
  solo, playing and volume fields are.
\<close>

theorem callback_eligibility:
  assumes "audio_callback engine fs out frame_count = Inr (engine', fs', out')"
    and "engine_playing engine" and "engine_wf engine"
  shows "(\<forall>t < nat (track_count engine).
            mute (tracks engine ! t) \<or> \<not> playing (tracks engine ! t)
            \<or> ((\<exists>u < nat (track_count engine). solo (tracks engine ! u))
                \<and> \<not> solo (tracks engine ! t))
            \<longrightarrow> tracks engine' ! t = tracks engine ! t
              \<and> fst fs' ! t = fst fs ! t \<and> snd fs' ! t = snd fs ! t)
       \<and> (\<forall>j < 2 * unat frame_count.
            out' ! j = master_volume engine *
              (\<Sum>t < nat (track_count engine).
                 if mute (tracks engine ! t) \<or> \<not> playing (tracks engine ! t)
                    \<or> ((\<exists>u < nat (track_count engine). solo (tracks engine ! u))
                        \<and> \<not> solo (tracks engine ! t))
                 then 0
                 else track_samples (tracks engine) fs (unat frame_count) t ! j))
       \<and> (\<forall>t < nat (track_count engine).
            \<not> (mute (tracks engine ! t) \<or> \<not> playing (tracks engine ! t)
               \<or> ((\<exists>u < nat (track_count engine). solo (tracks engine ! u))
                   \<and> \<not> solo (tracks engine ! t)))
            \<longrightarrow> length (track_samples (tracks engine) fs (unat frame_count) t)
                  = 2 * unat frame_count)"
proof -
  let ?n = "nat (track_count engine)"
  let ?a = "any_solo_loop (tracks engine) 0 ?n"
  let ?skip = "\<lambda>t. mute (tracks engine ! t) \<or> \<not> playing (tracks engine ! t)
            \<or> ((\<exists>u < ?n. solo (tracks engine ! u)) \<and> \<not> solo (tracks engine ! t))"
  have skip: "\<And>t. track_skipped ?a (tracks engine ! t) \<longleftrightarrow> ?skip t"
    by (rule track_skipped_iff)
  note mix = audio_callback_mix [OF assms, unfolded skip]
  have set_eq: "included_tracks ?a (tracks engine) ?n = {t \<in> {..<?n}. \<not> ?skip t}"
    by (auto simp: included_tracks_def skip)
  have sum_eq: "\<And>g. (\<Sum>u \<in> included_tracks ?a (tracks engine) ?n. g u)
                  = (\<Sum>t < ?n. if ?skip t then 0 else g t)"
    unfolding set_eq by (subst sum.inter_filter, simp, rule sum.cong) auto
  have A: "\<forall>t < ?n. ?skip t \<longrightarrow> tracks engine' ! t = tracks engine ! t
              \<and> fst fs' ! t = fst fs ! t \<and> snd fs' ! t = snd fs ! t"
    using mix by blast
  have B: "\<forall>j < 2 * unat frame_count.
            out' ! j = master_volume engine *
              (\<Sum>t < ?n. if ?skip t then 0
                 else track_samples (tracks engine) fs (unat frame_count) t ! j)"
    using mix unfolding sum_eq by blast
  have C: "\<forall>t < ?n. \<not> ?skip t \<longrightarrow>
             length (track_samples (tracks engine) fs (unat frame_count) t) = 2 * unat frame_count"
  proof (intro allI impI)
    fix t assume t: "t < ?n" "\<not> ?skip t"
    with mix obtain track2 left right fs2 where
      r: "render_track (tracks engine ! t) t (unat frame_count) fs = Inr (track2, left, right, fs2)"
      by blast
    from render_track_facts [OF r] have "length left = unat frame_count" "length right = unat frame_count"
      by simp_all
    then show "length (track_samples (tracks engine) fs (unat frame_count) t) = 2 * unat frame_count"
      by (simp add: track_samples_def r interleave_length)
  qed
  from A B C show ?thesis by blast
qed

theorem callback_eligibility_witness:
  "engine_playing demo_engine \<and> engine_wf demo_engine
   \<and> (1::nat) < nat (track_count demo_engine) \<and> mute (tracks demo_engine ! 1)
   \<and> (\<exists>engine' fs' out'.
         audio_callback demo_engine zero_filter_state [5, 5] 1 = Inr (engine', fs', out')
       \<and> tracks engine' ! 1 = tracks demo_engine ! 1
       \<and> out' ! 0 = 3 / 10 \<and> out' ! 1 = 0)"
proof -
  from demo_runs obtain engine' fs' out' where
    run: "audio_callback demo_engine zero_filter_state [5, 5] 1 = Inr (engine', fs', out')"
    by (metis prod_cases3)
  have pl: "engine_playing demo_engine" by (simp add: demo_tracks)
  have s0: "track_samples (tracks demo_engine) zero_filter_state (Suc 0) 0 = [3 / 10, 0]"
    by (simp add: track_samples_def demo_samples)
  note th = callback_eligibility [OF run pl demo_wf]
  from th have "tracks engine' ! 1 = tracks demo_engine ! 1"
    by (simp add: demo_tracks)
  moreover from th have "out' ! 0 = 3 / 10 \<and> out' ! 1 = 0"
    by (simp add: demo_tracks zero_track_def s0 lessThan_Suc numeral_2_eq_2 demo_no_solo(1))
  ultimately show ?thesis
    using run pl demo_wf by (auto simp: demo_tracks)
qed

subsection \<open>The meters of a track\<close>

text \<open>
  The meters in the exact reading of the arithmetic: for a track that the callback mixes,
  the \<open>rms_level\<close> of each channel is the square root of the sum of the squares of the
  \<open>frame_count\<close> samples of this period (after the effects) divided by \<open>frame_count\<close>;
  nothing of an earlier period enters. \<open>peak_level\<close> is the largest absolute value of the
  same samples, and with exact sums and roots \<open>0 \<le> rms_level \<le> peak_level\<close>.
\<close>

lemma included_track_meters_exact:
  assumes "audio_callback engine fs out frame_count = Inr (engine', fs', out')"
    and "engine_playing engine" and "engine_wf engine"
    and "t < nat (track_count engine)"
    and "\<not> (mute (tracks engine ! t) \<or> \<not> playing (tracks engine ! t)
         \<or> ((\<exists>u < nat (track_count engine). solo (tracks engine ! u))
             \<and> \<not> solo (tracks engine ! t)))"
  shows "\<exists>track2 left right fs2.
           render_track (tracks engine ! t) t (unat frame_count) fs
             = Inr (track2, left, right, fs2)
         \<and> length left = unat frame_count \<and> length right = unat frame_count
         \<and> 0 < unat frame_count
         \<and> rms_level (tracks engine' ! t)
             = (sqrt ((\<Sum>x\<leftarrow>left. x\<^sup>2) / real (unat frame_count)),
                sqrt ((\<Sum>x\<leftarrow>right. x\<^sup>2) / real (unat frame_count)))
         \<and> peak_level (tracks engine' ! t) = (Max (abs ` set left), Max (abs ` set right))
         \<and> 0 \<le> fst (rms_level (tracks engine' ! t))
         \<and> fst (rms_level (tracks engine' ! t)) \<le> fst (peak_level (tracks engine' ! t))
         \<and> 0 \<le> snd (rms_level (tracks engine' ! t))
         \<and> snd (rms_level (tracks engine' ! t)) \<le> snd (peak_level (tracks engine' ! t))"
proof -
  let ?f = "unat frame_count"
  from assms(5) have "\<not> track_skipped (any_solo_loop (tracks engine) 0 (nat (track_count engine)))
      (tracks engine ! t)"
    unfolding track_skipped_iff .
  with audio_callback_mix [OF assms(1-3)] assms(4) obtain track2 left right fs2 where
    r: "render_track (tracks engine ! t) t ?f fs = Inr (track2, left, right, fs2)"
    and f0: "?f \<noteq> 0"
    and pk: "peak_level (tracks engine' ! t) = (peak_of left 0, peak_of right 0)"
    and rm: "rms_level (tracks engine' ! t)
              = (sqrt (sum_squares left / real ?f), sqrt (sum_squares right / real ?f))"
    by blast
  from render_track_facts [OF r] have len: "length left = ?f" "length right = ?f" by simp_all
  with f0 have ne: "left \<noteq> []" "right \<noteq> []" by auto
  from rms_le_peak [OF ne(1)] rms_le_peak [OF ne(2)] len
  have le: "0 \<le> sqrt (sum_squares left / real ?f)"
    "sqrt (sum_squares left / real ?f) \<le> peak_of left 0"
    "0 \<le> sqrt (sum_squares right / real ?f)"
    "sqrt (sum_squares right / real ?f) \<le> peak_of right 0"
    by simp_all
  have "rms_level (tracks engine' ! t)
          = (sqrt ((\<Sum>x\<leftarrow>left. x\<^sup>2) / real ?f), sqrt ((\<Sum>x\<leftarrow>right. x\<^sup>2) / real ?f))"
    by (simp add: rm sum_squares_power)
  moreover have "peak_level (tracks engine' ! t) = (Max (abs ` set left), Max (abs ` set right))"
    by (simp add: pk peak_of_Max ne)
  moreover have "0 \<le> fst (rms_level (tracks engine' ! t))
         \<and> fst (rms_level (tracks engine' ! t)) \<le> fst (peak_level (tracks engine' ! t))
         \<and> 0 \<le> snd (rms_level (tracks engine' ! t))
         \<and> snd (rms_level (tracks engine' ! t)) \<le> snd (peak_level (tracks engine' ! t))"
    using le by (simp add: rm pk)
  ultimately show ?thesis using r len f0 by blast
qed

lemma included_track_meters_exact_example:
  "engine_playing demo_engine \<and> engine_wf demo_engine
   \<and> (0::nat) < nat (track_count demo_engine)
   \<and> \<not> mute (tracks demo_engine ! 0) \<and> playing (tracks demo_engine ! 0)
   \<and> \<not> (\<exists>u < nat (track_count demo_engine). solo (tracks demo_engine ! u))
   \<and> (\<exists>engine' fs' out'.
         audio_callback demo_engine zero_filter_state [5, 5] 1 = Inr (engine', fs', out')
       \<and> peak_level (tracks engine' ! 0) = (3 / 10, 0)
       \<and> rms_level (tracks engine' ! 0) = (3 / 10, 0))"
proof -
  from demo_runs obtain engine' fs' out' where
    run: "audio_callback demo_engine zero_filter_state [5, 5] 1 = Inr (engine', fs', out')"
    by (metis prod_cases3)
  have pl: "engine_playing demo_engine" by (simp add: demo_tracks)
  have t: "(0::nat) < nat (track_count demo_engine)" by (simp add: demo_tracks)
  have a: "\<not> mute (tracks demo_engine ! 0)" "playing (tracks demo_engine ! 0)"
    by (simp_all add: demo_tracks zero_track_def)
  note b = demo_no_solo(2)
  have inc: "\<not> (mute (tracks demo_engine ! 0) \<or> \<not> playing (tracks demo_engine ! 0)
         \<or> ((\<exists>u < nat (track_count demo_engine). solo (tracks demo_engine ! u))
             \<and> \<not> solo (tracks demo_engine ! 0)))"
    using a b by blast
  from included_track_meters_exact [OF run pl demo_wf t inc]
  have "peak_level (tracks engine' ! 0) = (3 / 10, 0)
      \<and> rms_level (tracks engine' ! 0) = (3 / 10, 0)"
    by (simp add: demo_samples power2_eq_square sqrt_demo)
  with run pl demo_wf t a b show ?thesis by blast
qed

text \<open>
  Claim C10: when the engine is playing, a track that the test at the head of the mixing
  loop skips (muted, not playing, or not soloed while another track is) keeps its
  \<open>peak_level\<close> and \<open>rms_level\<close>: the values of the last period in which it was mixed are
  not zeroed.
\<close>

theorem skipped_track_meters_unchanged:
  assumes "audio_callback engine fs out frame_count = Inr (engine', fs', out')"
    and "engine_playing engine" and "engine_wf engine"
    and "t < nat (track_count engine)"
    and "mute (tracks engine ! t) \<or> \<not> playing (tracks engine ! t)
         \<or> ((\<exists>u < nat (track_count engine). solo (tracks engine ! u))
             \<and> \<not> solo (tracks engine ! t))"
  shows "peak_level (tracks engine' ! t) = peak_level (tracks engine ! t)
       \<and> rms_level (tracks engine' ! t) = rms_level (tracks engine ! t)"
proof -
  from assms(5) have "track_skipped (any_solo_loop (tracks engine) 0 (nat (track_count engine)))
      (tracks engine ! t)"
    unfolding track_skipped_iff .
  with audio_callback_mix [OF assms(1-3)] assms(4)
  have "tracks engine' ! t = tracks engine ! t" by blast
  then show ?thesis by simp
qed

theorem skipped_track_meters_unchanged_witness:
  "engine_playing demo_engine \<and> engine_wf demo_engine
   \<and> (1::nat) < nat (track_count demo_engine) \<and> mute (tracks demo_engine ! 1)
   \<and> (\<exists>engine' fs' out'.
         audio_callback demo_engine zero_filter_state [5, 5] 1 = Inr (engine', fs', out')
       \<and> peak_level (tracks engine' ! 1) = (1 / 2, 1 / 2)
       \<and> rms_level (tracks engine' ! 1) = (1 / 4, 1 / 4))"
proof -
  from demo_runs obtain engine' fs' out' where
    run: "audio_callback demo_engine zero_filter_state [5, 5] 1 = Inr (engine', fs', out')"
    by (metis prod_cases3)
  have pl: "engine_playing demo_engine" by (simp add: demo_tracks)
  have t: "(1::nat) < nat (track_count demo_engine)" by (simp add: demo_tracks)
  have m: "mute (tracks demo_engine ! 1)" by (simp add: demo_tracks)
  from skipped_track_meters_unchanged [OF run pl demo_wf t disjI1 [OF m]]
  have "peak_level (tracks engine' ! 1) = (1 / 2, 1 / 2)
      \<and> rms_level (tracks engine' ! 1) = (1 / 4, 1 / 4)"
    by (simp add: demo_tracks)
  with run pl demo_wf t m show ?thesis by blast
qed

section \<open>Properties of the binary32 reading\<close>

subsection \<open>Rounding to binary32\<close>

lemma round_even_eq:
  assumes "\<bar>y - of_int m\<bar> < 1 / 2"
  shows "round_even y = m"
proof (cases "of_int m \<le> y")
  case True
  then have "\<lfloor>y\<rfloor> = m" using assms by (intro floor_unique) (auto simp: abs_less_iff)
  then show ?thesis using assms True by (simp add: round_even_def Let_def abs_less_iff)
next
  case False
  then have f: "\<lfloor>y\<rfloor> = m - 1" using assms by (intro floor_unique) (auto simp: abs_less_iff)
  have "\<not> y - of_int (m - 1) < 1 / 2" "1 / 2 < y - of_int (m - 1)"
    using assms False by (auto simp: abs_less_iff)
  then show ?thesis unfolding round_even_def Let_def f by simp
qed

lemma round_even_near: "\<bar>y - of_int (round_even y)\<bar> \<le> 1 / 2"
proof -
  have "of_int \<lfloor>y\<rfloor> \<le> y" "y < of_int \<lfloor>y\<rfloor> + 1" by linarith+
  then show ?thesis by (auto simp: round_even_def Let_def abs_le_iff)
qed

lemma round_even_mono_int:
  "of_int k \<le> y \<Longrightarrow> k \<le> round_even y" "y \<le> of_int k \<Longrightarrow> round_even y \<le> k"
proof -
  have a: "k \<le> \<lfloor>y\<rfloor>" if "of_int k \<le> y" using that by (simp add: le_floor_iff)
  show "k \<le> round_even y" if "of_int k \<le> y"
    using a [OF that] by (auto simp: round_even_def Let_def)
  show "round_even y \<le> k" if h: "y \<le> of_int k"
  proof (cases "y = of_int k")
    case True
    then show ?thesis using round_even_eq [of y k] by simp
  next
    case False
    then have "y < of_int k" using h by simp
    then have "\<lfloor>y\<rfloor> < k" by (simp add: floor_less_iff)
    then show ?thesis by (auto simp: round_even_def Let_def)
  qed
qed

lemma floor_log2:
  assumes "2 powi e \<le> a" "a < 2 powi (e + 1)"
  shows "\<lfloor>log 2 a\<rfloor> = e"
proof -
  have "0 < (2::real) powi e" by simp
  then have a: "0 < a" using assms by linarith
  have "(2::real) powr (of_int e) = 2 powi e" "(2::real) powr (of_int e + 1) = 2 powi (e + 1)"
    using powr_real_of_int' [of "2::real" e] powr_real_of_int' [of "2::real" "e + 1"] by simp_all
  then show ?thesis using assms a by (simp add: floor_log_eq_powr_iff)
qed

lemma f32_round_eq:
  assumes "2 powi e \<le> \<bar>x\<bar>" "\<bar>x\<bar> < 2 powi (e + 1)"
    and "\<bar>x / 2 powi (e - 23) - of_int m\<bar> < 1 / 2"
  shows "f32_round x = of_int m * 2 powi (e - 23)"
proof -
  have "0 < (2::real) powi e" by simp
  with assms(1) have "0 < \<bar>x\<bar>" by linarith
  then have "x \<noteq> 0" by simp
  moreover have "\<lfloor>log 2 \<bar>x\<bar>\<rfloor> = e" using assms(1,2) by (rule floor_log2)
  ultimately show ?thesis
    using round_even_eq [OF assms(3)] by (simp add: f32_round_def Let_def)
qed

lemma f32_round_nonneg: "0 \<le> x \<Longrightarrow> 0 \<le> f32_round x"
  using round_even_mono_int(1) [of 0 "x / 2 powi (\<lfloor>log 2 \<bar>x\<bar>\<rfloor> - 23)"]
  by (simp add: f32_round_def Let_def)


lemma f32_round_binade:
  assumes "2 powi e \<le> x" "x < 2 powi (e + 1)"
  shows "2 powi e \<le> f32_round x \<and> f32_round x \<le> 2 powi (e + 1)"
proof -
  have p: "0 < (2::real) powi e" by simp
  then have x: "0 < x" using assms(1) by linarith
  have fl: "\<lfloor>log 2 \<bar>x\<bar>\<rfloor> = e" using assms x by (intro floor_log2) auto
  define u :: real where "u = 2 powi (e - 23)"
  have u: "0 < u" by (simp add: u_def)
  have e1: "2 powi e = 2 ^ 23 * u" "2 powi (e + 1) = 2 ^ 24 * u"
    unfolding u_def by (simp_all add: power_int_diff power_int_add)
  have "of_int (2 ^ 23) \<le> x / u" "x / u \<le> of_int (2 ^ 24)"
    using assms u unfolding e1 by (simp_all add: field_simps)
  then have "2 ^ 23 \<le> round_even (x / u)" "round_even (x / u) \<le> 2 ^ 24"
    by (simp_all only: round_even_mono_int)
  then have "2 ^ 23 \<le> (of_int (round_even (x / u)) :: real)" "(of_int (round_even (x / u)) :: real) \<le> 2 ^ 24"
    by (metis of_int_le_iff of_int_numeral of_int_power)+
  then have "2 ^ 23 * u \<le> of_int (round_even (x / u)) * u" "of_int (round_even (x / u)) * u \<le> 2 ^ 24 * u"
    using u by simp_all
  moreover have "f32_round x = of_int (round_even (x / u)) * u"
    using x fl by (simp add: f32_round_def Let_def u_def)
  ultimately show ?thesis unfolding e1 by simp
qed

lemma f32_round_binade_neg:
  assumes "- (2 powi (e + 1)) < x" "x \<le> - (2 powi e)"
  shows "- (2 powi (e + 1)) \<le> f32_round x \<and> f32_round x \<le> - (2 powi e)"
proof -
  have p: "0 < (2::real) powi e" by simp
  then have x: "x < 0" using assms(2) by linarith
  have fl: "\<lfloor>log 2 \<bar>x\<bar>\<rfloor> = e" using assms x by (intro floor_log2) auto
  define u :: real where "u = 2 powi (e - 23)"
  have u: "0 < u" by (simp add: u_def)
  have e1: "2 powi e = 2 ^ 23 * u" "2 powi (e + 1) = 2 ^ 24 * u"
    unfolding u_def by (simp_all add: power_int_diff power_int_add)
  have "of_int (- (2 ^ 24)) \<le> x / u" "x / u \<le> of_int (- (2 ^ 23))"
    using assms u unfolding e1 by (simp_all add: field_simps)
  then have "- (2 ^ 24) \<le> round_even (x / u)" "round_even (x / u) \<le> - (2 ^ 23)"
    by (simp_all only: round_even_mono_int)
  then have "- (2 ^ 24) \<le> (of_int (round_even (x / u)) :: real)"
    "(of_int (round_even (x / u)) :: real) \<le> - (2 ^ 23)"
    by (metis of_int_le_iff of_int_minus of_int_numeral of_int_power)+
  then have "- (2 ^ 24) * u \<le> of_int (round_even (x / u)) * u"
    "of_int (round_even (x / u)) * u \<le> - (2 ^ 23) * u"
    using u by (simp_all only: mult_le_cancel_right_pos)
  moreover have "f32_round x = of_int (round_even (x / u)) * u"
    using x fl by (simp add: f32_round_def Let_def u_def)
  ultimately show ?thesis unfolding e1 by simp
qed

lemma FLT_MAX_ge: "e \<le> 127 \<Longrightarrow> 2 powi e \<le> FLT_MAX"
proof -
  assume "e \<le> 127"
  then have "(2::real) powi e \<le> 2 powi 127" by (intro power_int_increasing) simp_all
  also have "\<dots> \<le> FLT_MAX" by (simp add: FLT_MAX_def)
  finally show ?thesis .
qed

lemma FLT_MIN_le: "- 126 \<le> e \<Longrightarrow> FLT_MIN \<le> 2 powi e"
  unfolding FLT_MIN_def by (intro power_int_increasing) simp_all

lemma fl_zero [simp]: "fl 0 = Inr 0"
  by (simp add: fl_def f32_round_def FLT_MAX_def)

lemma fl_eq:
  assumes "2 powi e \<le> \<bar>x\<bar>" "\<bar>x\<bar> < 2 powi (e + 1)"
    and "\<bar>x / 2 powi (e - 23) - of_int m\<bar> < 1 / 2"
    and "- 126 \<le> e" "e \<le> 126"
  shows "fl x = Inr (of_int m * 2 powi (e - 23))"
proof -
  define u :: real where "u = 2 powi (e - 23)"
  have u: "0 < u" by (simp add: u_def)
  have e1: "2 powi (e + 1) = 2 ^ 24 * u"
    unfolding u_def by (simp add: power_int_diff power_int_add)
  have r: "f32_round x = of_int m * u"
    unfolding u_def using assms(1-3) by (rule f32_round_eq)
  have "\<bar>x / u\<bar> < 2 ^ 24" using assms(2) u unfolding e1 by (simp add: field_simps)
  with assms(3) have "\<bar>(of_int m :: real)\<bar> < 2 ^ 24 + 1 / 2" unfolding u_def by linarith
  then have "\<bar>(of_int m :: real)\<bar> < of_int (2 ^ 24 + 1)" by simp
  then have "\<bar>m\<bar> < 2 ^ 24 + 1" by (metis of_int_abs of_int_less_iff)
  then have "\<bar>m\<bar> \<le> 2 ^ 24" by simp
  then have "\<bar>(of_int m :: real)\<bar> \<le> of_int (2 ^ 24)" by (metis of_int_abs of_int_le_iff)
  then have "\<bar>of_int m * u\<bar> \<le> 2 ^ 24 * u" using u by (simp add: abs_mult)
  also have "\<dots> = 2 powi (e + 1)" by (simp add: e1)
  also have "\<dots> \<le> FLT_MAX" using assms(5) by (intro FLT_MAX_ge) simp
  finally have a: "\<not> FLT_MAX < \<bar>f32_round x\<bar>" by (simp add: r)
  have "FLT_MIN \<le> \<bar>x\<bar>" using FLT_MIN_le [OF assms(4)] assms(1) by linarith
  then have b: "\<not> (x \<noteq> 0 \<and> \<bar>x\<bar> < FLT_MIN)" by simp
  show ?thesis using a b r by (simp add: fl_def u_def)
qed

lemma fl_nonneg: "fl x = Inr r \<Longrightarrow> 0 \<le> x \<Longrightarrow> 0 \<le> r"
  using f32_round_nonneg [of x] by (auto simp: fl_def split: if_splits)

lemma fl_binade_neg:
  assumes "- (2 powi (e + 1)) < x" "x \<le> - (2 powi e)" "- 126 \<le> e" "e \<le> 126"
  shows "fl x = Inr (f32_round x)
       \<and> - (2 powi (e + 1)) \<le> f32_round x \<and> f32_round x \<le> - (2 powi e)"
proof -
  note b = f32_round_binade_neg [OF assms(1,2)]
  have p: "0 < (2::real) powi e" by simp
  have "\<bar>f32_round x\<bar> \<le> 2 powi (e + 1)" using b p by linarith
  also have "\<dots> \<le> FLT_MAX" using assms(4) by (intro FLT_MAX_ge) simp
  finally have a: "\<not> FLT_MAX < \<bar>f32_round x\<bar>" by simp
  have "FLT_MIN \<le> \<bar>x\<bar>" using FLT_MIN_le [OF assms(3)] assms(2) by linarith
  then have "\<not> (x \<noteq> 0 \<and> \<bar>x\<bar> < FLT_MIN)" by simp
  with a b show ?thesis by (simp add: fl_def)
qed

subsection \<open>The cosine at the binary32 quarter turn\<close>

lemma cc_even:
  "cos_coeff 0 = 1" "cos_coeff 2 = - 1 / 2" "cos_coeff 4 = 1 / 24" "cos_coeff 6 = - 1 / 720"
  "cos_coeff 8 = 1 / 40320" "cos_coeff 10 = - 1 / 3628800" "cos_coeff 12 = 1 / 479001600"
  "cos_coeff 14 = - 1 / 87178291200"
  by (simp_all add: cos_coeff_def fact_numeral)

lemma cc_odd:
  "cos_coeff 1 = 0" "cos_coeff 3 = 0" "cos_coeff 5 = 0" "cos_coeff 7 = 0"
  "cos_coeff 9 = 0" "cos_coeff 11 = 0" "cos_coeff 13 = 0" "cos_coeff 15 = 0"
  by (simp_all add: cos_coeff_def)

lemma less16: "{..<16::nat} = {0,1,2,3,4,5,6,7,8,9,10,11,12,13,14,15}"
  by (auto, arith)

lemma cc_one: "cos_coeff (Suc 0) = 0"
  by (simp add: cos_coeff_def)

lemma s16: "(\<Sum>m<16. cos_coeff m * x ^ m) = 1 - x^2 / 2 + x^4 / 24 - x^6 / 720 + x^8 / 40320
             - x^10 / 3628800 + x^12 / 479001600 - x^14 / 87178291200" for x :: real
  unfolding less16 by (simp add: cc_even cc_odd cc_one)

lemma p: "x^2 = x*x" "x^4 = (x*x)^2" "x^6 = (x*x)^3" "x^8 = (x*x)^4" "x^10 = (x*x)^5"
    "x^12 = (x*x)^6" "x^14 = (x*x)^7" "x^16 = (x*x)^8" for x :: real
    by (simp_all add: power2_eq_square [symmetric] power_mult [symmetric])

lemma f16: "(fact 16 :: real) = 20922789888000"
  by (simp add: fact_numeral)


lemma cos_taylor16:
  fixes x :: real
  assumes "0 < x"
  shows "\<bar>cos x - (1 - (x*x) / 2 + (x*x)^2 / 24 - (x*x)^3 / 720 + (x*x)^4 / 40320
               - (x*x)^5 / 3628800 + (x*x)^6 / 479001600 - (x*x)^7 / 87178291200)\<bar>
         \<le> (x*x)^8 / 20922789888000"
proof -
  from Maclaurin_cos_expansion2 [OF assms, of 16] obtain t where
    t: "cos x = (\<Sum>m<16. cos_coeff m * x ^ m) + (cos (t + 1/2 * real 16 * pi) / fact 16) * x ^ 16"
    by auto
  from t have "cos x - (\<Sum>m<16. cos_coeff m * x ^ m) = cos (t + 1/2 * real 16 * pi) * (x ^ 16 / fact 16)"
    by simp
  then have "\<bar>cos x - (\<Sum>m<16. cos_coeff m * x ^ m)\<bar> = \<bar>cos (t + 1/2 * real 16 * pi)\<bar> * (x ^ 16 / fact 16)"
    using assms by (simp add: abs_mult)
  also have "\<dots> \<le> 1 * (x ^ 16 / fact 16)"
    using assms by (intro mult_right_mono) simp_all
  finally show ?thesis unfolding s16 p f16 by simp
qed

lemma enclose_step:
  fixes y t :: real
  assumes "l \<le> t \<and> t \<le> u" "ly \<le> y \<and> y \<le> uy" "0 \<le> l" "0 \<le> ly" "l' \<le> ly * l" "uy * u \<le> u'"
  shows "l' \<le> y * t \<and> y * t \<le> u'"
proof -
  have "ly * l \<le> y * t" using assms by (intro mult_mono) auto
  moreover have "y * t \<le> uy * u" using assms by (intro mult_mono) auto
  ultimately show ?thesis using assms by linarith
qed

lemma cos_quarter_turn_bounds:
  "- 439 / 10 ^ 10 \<le> cos (13176795 / 8388608 :: real) \<and> cos (13176795 / 8388608 :: real) \<le> - 437 / 10 ^ 10"
proof -
  define x :: real where "x = 13176795 / 8388608"
  define y where "y = x * x"
  have x: "0 < x" by (simp add: x_def)
  have e1: "246740123759572327 / 100000000000000000 \<le> y \<and> y \<le> 30842515469946541 / 12500000000000000"
    by (simp add: y_def x_def)
  have e1': "246740123759572327 / 100000000000000000 \<le> y ^ 1 \<and> y ^ 1 \<le> 30842515469946541 / 12500000000000000" using e1 by simp
  have e2: "608806886728890683 / 100000000000000000 \<le> y ^ 2 \<and> y ^ 2 \<le> 608806886728890689 / 100000000000000000"
  proof -
    have "y ^ 2 = y * y ^ 1" by (simp add: eval_nat_numeral)
    moreover have "608806886728890683 / 100000000000000000 \<le> y * y ^ 1 \<and> y * y ^ 1 \<le> 608806886728890689 / 100000000000000000"
      by (rule enclose_step [OF e1' e1]) simp_all
    ultimately show ?thesis by simp
  qed
  have e3: "187771358221458023 / 12500000000000000 \<le> y ^ 3 \<and> y ^ 3 \<le> 751085432885832103 / 50000000000000000"
  proof -
    have "y ^ 3 = y * y ^ 2" by (simp add: eval_nat_numeral)
    moreover have "187771358221458023 / 12500000000000000 \<le> y * y ^ 2 \<and> y * y ^ 2 \<le> 751085432885832103 / 50000000000000000"
      by (rule enclose_step [OF e2 e1]) simp_all
    ultimately show ?thesis by simp
  qed
  have e4: "3706458253285243307 / 100000000000000000 \<le> y ^ 4 \<and> y ^ 4 \<le> 3706458253285243377 / 100000000000000000"
  proof -
    have "y ^ 4 = y * y ^ 3" by (simp add: eval_nat_numeral)
    moreover have "3706458253285243307 / 100000000000000000 \<le> y * y ^ 3 \<and> y * y ^ 3 \<le> 3706458253285243377 / 100000000000000000"
      by (rule enclose_step [OF e3 e1]) simp_all
    ultimately show ?thesis by simp
  qed
  have e5: "114316496015661151 / 1250000000000000 \<le> y ^ 5 \<and> y ^ 5 \<le> 9145319681252892291 / 100000000000000000"
  proof -
    have "y ^ 5 = y * y ^ 4" by (simp add: eval_nat_numeral)
    moreover have "114316496015661151 / 1250000000000000 \<le> y * y ^ 4 \<and> y * y ^ 4 \<le> 9145319681252892291 / 100000000000000000"
      by (rule enclose_step [OF e4 e1]) simp_all
    ultimately show ?thesis by simp
  qed
  have e6: "22565173099731911373 / 100000000000000000 \<le> y ^ 6 \<and> y ^ 6 \<le> 11282586549865955993 / 50000000000000000"
  proof -
    have "y ^ 6 = y * y ^ 5" by (simp add: eval_nat_numeral)
    moreover have "22565173099731911373 / 100000000000000000 \<le> y * y ^ 5 \<and> y * y ^ 5 \<le> 11282586549865955993 / 50000000000000000"
      by (rule enclose_step [OF e5 e1]) simp_all
    ultimately show ?thesis by simp
  qed
  have e7: "55677336032840241197 / 100000000000000000 \<le> y ^ 7 \<and> y ^ 7 \<le> 6959667004105030367 / 12500000000000000"
  proof -
    have "y ^ 7 = y * y ^ 6" by (simp add: eval_nat_numeral)
    moreover have "55677336032840241197 / 100000000000000000 \<le> y * y ^ 6 \<and> y * y ^ 6 \<le> 6959667004105030367 / 12500000000000000"
      by (rule enclose_step [OF e6 e1]) simp_all
    ultimately show ?thesis by simp
  qed
  have e8: "137378327833462968439 / 100000000000000000 \<le> y ^ 8 \<and> y ^ 8 \<le> 137378327833462973287 / 100000000000000000"
  proof -
    have "y ^ 8 = y * y ^ 7" by (simp add: eval_nat_numeral)
    moreover have "137378327833462968439 / 100000000000000000 \<le> y * y ^ 7 \<and> y * y ^ 7 \<le> 137378327833462973287 / 100000000000000000"
      by (rule enclose_step [OF e7 e1]) simp_all
    ultimately show ?thesis by simp
  qed
  have t: "\<bar>cos x - (1 - y / 2 + y ^ 2 / 24 - y ^ 3 / 720 + y ^ 4 / 40320 - y ^ 5 / 3628800 + y ^ 6 / 479001600 - y ^ 7 / 87178291200)\<bar> \<le> y ^ 8 / 20922789888000"
    unfolding y_def by (rule cos_taylor16 [OF x])
  have "- 439 / 10000000000 \<le> cos x \<and> cos x \<le> - 437 / 10000000000"
    using t e1 e2 e3 e4 e5 e6 e7 e8 unfolding abs_le_iff by linarith
  then show ?thesis by (simp add: x_def)
qed

lemma quarter_turn_below_pi: "(13176795 / 8388608 :: real) < pi"
  using pi_ge_two by simp

lemma sin_quarter_turn_bounds:
  "1 - 1 / 2 ^ 26 < sin (13176795 / 8388608 :: real) \<and> sin (13176795 / 8388608 :: real) < 1"
proof -
  define x :: real where "x = 13176795 / 8388608"
  have c: "- 439 / 10 ^ 10 \<le> cos x \<and> cos x \<le> - 437 / 10 ^ 10"
    unfolding x_def by (rule cos_quarter_turn_bounds)
  have s0: "0 < sin x" using quarter_turn_below_pi unfolding x_def by (intro sin_gt_zero) simp_all
  have sq: "(sin x)\<^sup>2 = 1 - (cos x)\<^sup>2" using sin_cos_squared_add [of x] by linarith
  have "\<bar>cos x\<bar> \<le> 1 / 2 ^ 14" using c by simp
  then have "\<bar>cos x\<bar>\<^sup>2 \<le> (1 / 2 ^ 14)\<^sup>2" by (intro power_mono) simp_all
  then have c2: "(cos x)\<^sup>2 \<le> 1 / 2 ^ 28" by (simp add: power_divide)
  have "cos x \<noteq> 0" using c by simp
  then have c3: "0 < (cos x)\<^sup>2" by simp
  have "(sin x)\<^sup>2 < 1\<^sup>2" using sq c3 by simp
  then have up: "sin x < 1" by (rule power2_less_imp_less) simp
  have "(1 - 1 / 2 ^ 26 :: real)\<^sup>2 < 1 - 1 / 2 ^ 28" by (simp add: power2_eq_square)
  also have "\<dots> \<le> (sin x)\<^sup>2" using sq c2 by simp
  finally have "(1 - 1 / 2 ^ 26)\<^sup>2 < (sin x)\<^sup>2" .
  then have "1 - 1 / 2 ^ 26 < sin x" by (rule power2_less_imp_less) (use s0 in simp)
  with up show ?thesis by (simp add: x_def)
qed

lemma eighth_turn_bounds:
  "23726565 / 33554432 < cos (13176795 / 16777216 :: real)
   \<and> cos (13176795 / 16777216 :: real) < 23726567 / 33554432
   \<and> 23726565 / 33554432 < sin (13176795 / 16777216 :: real)
   \<and> sin (13176795 / 16777216 :: real) < 23726567 / 33554432"
proof -
  define a :: real where "a = 13176795 / 16777216"
  have x: "13176795 / 8388608 = 2 * a" by (simp add: a_def)
  have "- 439 / 10 ^ 10 \<le> cos (2 * a) \<and> cos (2 * a) \<le> - 437 / 10 ^ 10"
    using cos_quarter_turn_bounds unfolding x .
  then have c: "- 439 / 10000000000 \<le> cos (2 * a)" "cos (2 * a) \<le> - 437 / 10000000000"
    by simp_all
  have a: "0 < a" "a < pi / 2" using pi_ge_two by (simp_all add: a_def)
  have c0: "0 < cos a" using a by (intro cos_gt_zero) simp_all
  have s0: "0 < sin a" using a by (intro sin_gt_zero) simp_all
  have cq: "(cos a)\<^sup>2 = (1 + cos (2 * a)) / 2" using cos_double_cos [of a] by simp
  have sq: "(sin a)\<^sup>2 = (1 - cos (2 * a)) / 2" using cos_double_sin [of a] by simp
  define lo :: real where "lo = (23726565 / 33554432)\<^sup>2"
  define hi :: real where "hi = (23726567 / 33554432)\<^sup>2"
  have n: "lo < (1 - 439 / 10000000000) / 2" "(1 + 439 / 10000000000) / 2 < hi"
    by (simp_all add: lo_def hi_def power2_eq_square)
  have "lo < (cos a)\<^sup>2" unfolding cq using c n by simp
  moreover have "(cos a)\<^sup>2 < hi" unfolding cq using c n by simp
  moreover have "lo < (sin a)\<^sup>2" unfolding sq using c n by simp
  moreover have "(sin a)\<^sup>2 < hi" unfolding sq using c n by simp
  ultimately have q: "(23726565 / 33554432)\<^sup>2 < (cos a)\<^sup>2" "(cos a)\<^sup>2 < (23726567 / 33554432)\<^sup>2"
    "(23726565 / 33554432)\<^sup>2 < (sin a)\<^sup>2" "(sin a)\<^sup>2 < (23726567 / 33554432)\<^sup>2"
    by (simp_all only: lo_def hi_def)
  have "23726565 / 33554432 < cos a" by (rule power2_less_imp_less [OF q(1)]) (use c0 in simp)
  moreover have "cos a < 23726567 / 33554432" by (rule power2_less_imp_less [OF q(2)]) simp
  moreover have "23726565 / 33554432 < sin a" by (rule power2_less_imp_less [OF q(3)]) (use s0 in simp)
  moreover have "sin a < 23726567 / 33554432" by (rule power2_less_imp_less [OF q(4)]) simp
  ultimately have "23726565 / 33554432 < cos a \<and> cos a < 23726567 / 33554432
    \<and> 23726565 / 33554432 < sin a \<and> sin a < 23726567 / 33554432" by simp
  then show ?thesis by (simp add: a_def)
qed

subsection \<open>Values of the binary32 operations\<close>

lemma fl_one [simp]: "fl 1 = Inr 1"
  using fl_eq [of 0 1 8388608] by simp

lemma fl_two [simp]: "fl 2 = Inr 2"
  using fl_eq [of 1 2 8388608] by simp

lemma fl_sample_rate [simp]: "fl 48000 = Inr 48000"
  using fl_eq [of 15 48000 12288000] by simp

lemma fl_pi [simp]: "fl (13176795 / 4194304) = Inr (13176795 / 4194304)"
  using fl_eq [of 1 "13176795 / 4194304" 13176795] by simp

lemma fl_two_pi [simp]: "fl (13176795 / 2097152) = Inr (13176795 / 2097152)"
  using fl_eq [of 2 "13176795 / 2097152" 13176795] by simp

lemma fl_quarter_turn [simp]: "fl (13176795 / 8388608) = Inr (13176795 / 8388608)"
  using fl_eq [of 0 "13176795 / 8388608" 13176795] by simp

lemma fl_eighth_turn [simp]: "fl (13176795 / 16777216) = Inr (13176795 / 16777216)"
  using fl_eq [of "- 1" "13176795 / 16777216" 13176795] by simp

lemma fl_three_tenths [simp]: "fl (5033165 / 16777216) = Inr (5033165 / 16777216)"
  using fl_eq [of "- 2" "5033165 / 16777216" 10066330] by simp

lemma f32_three_tenths: "f32_round (3 / 10) = FLT_0_3"
  using f32_round_eq [of "- 2" "3 / 10" 10066330] by (simp add: FLT_0_3_def)

lemma sinf_zero [simp]: "sinf 0 = Inr 0"
  by (simp add: sinf_def)

lemma cosf_zero [simp]: "cosf 0 = Inr 1"
  by (simp add: cosf_def)

lemma sinf_quarter_turn [simp]: "sinf (13176795 / 8388608) = Inr 1"
proof -
  note s = sin_quarter_turn_bounds
  have "\<bar>sin (13176795 / 8388608 :: real) / 2 powi (- 1 - 23) - of_int 16777216\<bar> < 1 / 2"
    using s by (simp add: abs_less_iff)
  from fl_eq [OF _ _ this] s show ?thesis by (simp add: sinf_def)
qed

lemma cosf_quarter_turn:
  "cosf (13176795 / 8388608) = Inr (f32_round (cos (13176795 / 8388608)))
   \<and> - (1 / 2 ^ 24) \<le> f32_round (cos (13176795 / 8388608))
   \<and> f32_round (cos (13176795 / 8388608)) \<le> - (1 / 2 ^ 25)"
  using fl_binade_neg [of "- 25" "cos (13176795 / 8388608)"] cos_quarter_turn_bounds
  by (simp add: cosf_def)

lemma cosf_eighth_turn [simp]: "cosf (13176795 / 16777216) = Inr (11863283 / 16777216)"
proof -
  note s = eighth_turn_bounds
  have "\<bar>cos (13176795 / 16777216 :: real) / 2 powi (- 1 - 23) - of_int 11863283\<bar> < 1 / 2"
    unfolding abs_less_iff using s by simp
  from fl_eq [OF _ _ this] s show ?thesis by (simp add: cosf_def)
qed

lemma sinf_eighth_turn [simp]: "sinf (13176795 / 16777216) = Inr (11863283 / 16777216)"
proof -
  note s = eighth_turn_bounds
  have "\<bar>sin (13176795 / 16777216 :: real) / 2 powi (- 1 - 23) - of_int 11863283\<bar> < 1 / 2"
    unfolding abs_less_iff using s by simp
  from fl_eq [OF _ _ this] s show ?thesis by (simp add: sinf_def)
qed

lemma pan_gains_left: "pan_gains_f32 (- 1) = Inr (1, 0)"
  by (simp add: pan_gains_f32_def fadd_def fmul_def fdiv_def MA_PI_f32_def)

lemma pan_gains_right:
  "pan_gains_f32 1 = Inr (f32_round (cos (13176795 / 8388608)), 1)"
  using cosf_quarter_turn
  by (simp add: pan_gains_f32_def fadd_def fmul_def fdiv_def MA_PI_f32_def)

lemma pan_gains_centre:
  "pan_gains_f32 0 = Inr (11863283 / 16777216, 11863283 / 16777216)"
  by (simp add: pan_gains_f32_def fadd_def fmul_def fdiv_def MA_PI_f32_def)

lemma binade_exists:
  assumes "0 < a"
  shows "2 powi \<lfloor>log 2 a\<rfloor> \<le> a \<and> a < 2 powi (\<lfloor>log 2 a\<rfloor> + 1)"
proof -
  define k where "k = \<lfloor>log 2 a\<rfloor>"
  have "(2::real) powr (of_int k) = 2 powi k" "(2::real) powr (of_int k + 1) = 2 powi (k + 1)"
    using powr_real_of_int' [of "2::real" k] powr_real_of_int' [of "2::real" "k + 1"] by simp_all
  moreover have "2 powr (of_int k) \<le> a \<and> a < 2 powr (of_int k + 1)"
    using floor_log_eq_powr_iff [of a 2 k] assms by (simp add: k_def)
  ultimately show ?thesis by (simp add: k_def)
qed

lemma power_int_less_cancel:
  assumes "(2::real) powi a < 2 powi b"
  shows "a < b"
proof (rule ccontr)
  assume "\<not> a < b"
  then have "(2::real) powi b \<le> 2 powi a" by (intro power_int_increasing) simp_all
  with assms show False by simp
qed

lemma fl_normal_neg:
  assumes "- (2 powi hi) < x" "x \<le> - (2 powi lo)" "- 126 \<le> lo" "hi \<le> 127"
  shows "fl x = Inr (f32_round x) \<and> - (2 powi hi) \<le> f32_round x \<and> f32_round x \<le> - (2 powi lo)"
proof -
  have p: "0 < (2::real) powi lo" by simp
  then have x: "x < 0" using assms(2) by linarith
  define e where "e = \<lfloor>log 2 \<bar>x\<bar>\<rfloor>"
  have b: "2 powi e \<le> \<bar>x\<bar>" "\<bar>x\<bar> < 2 powi (e + 1)"
    using binade_exists [of "\<bar>x\<bar>"] x by (simp_all add: e_def)
  have "(2::real) powi lo < 2 powi (e + 1)" using assms(2) b(2) x by linarith
  then have lo: "lo \<le> e" using power_int_less_cancel [of lo "e + 1"] by simp
  have "(2::real) powi e < 2 powi hi" using assms(1) b(1) x by linarith
  then have hi: "e + 1 \<le> hi" using power_int_less_cancel [of e hi] by simp
  have "- (2 powi (e + 1)) < x" "x \<le> - (2 powi e)" using b x by simp_all
  from fl_binade_neg [OF this] lo hi assms(3,4)
  have r: "fl x = Inr (f32_round x)" "- (2 powi (e + 1)) \<le> f32_round x" "f32_round x \<le> - (2 powi e)"
    by simp_all
  have "(2::real) powi (e + 1) \<le> 2 powi hi" using hi by (intro power_int_increasing) simp_all
  moreover have "(2::real) powi lo \<le> 2 powi e" using lo by (intro power_int_increasing) simp_all
  ultimately show ?thesis using r by simp
qed

subsection \<open>The generation loop in binary32\<close>

lemma osc_advance_f32_fields:
  assumes "osc_advance_f32 track = Inr track1"
  shows "pan track1 = pan track \<and> volume track1 = volume track
       \<and> frequency track1 = frequency track \<and> effects track1 = effects track
       \<and> effect_count track1 = effect_count track
       \<and> peak_level track1 = peak_level track \<and> rms_level track1 = rms_level track"
  using assms by (auto simp: osc_advance_f32_def bind_result_eq_Inr split: if_splits)

lemma generate_f32_nth:
  assumes "generate_f32 n track = Inr (track', ls, rs)" "i < n"
  shows "\<exists>track_i sample left_gain right_gain.
           osc_steps_f32 i track = Inr track_i
         \<and> osc_sample_f32 track_i = Inr sample
         \<and> pan_gains_f32 (pan track) = Inr (left_gain, right_gain)
         \<and> fmul sample left_gain = Inr (ls ! i)
         \<and> fmul sample right_gain = Inr (rs ! i)"
  using assms
proof (induction n arbitrary: track i ls rs)
  case 0
  then show ?case by simp
next
  case (Suc n)
  from Suc.prems(1) obtain sample track1 left_gain right_gain l r ls1 rs1 where
    s: "osc_sample_f32 track = Inr sample"
    and a: "osc_advance_f32 track = Inr track1"
    and g: "pan_gains_f32 (pan track1) = Inr (left_gain, right_gain)"
    and l: "fmul sample left_gain = Inr l" and r: "fmul sample right_gain = Inr r"
    and rec: "generate_f32 n track1 = Inr (track', ls1, rs1)"
    and res: "ls = l # ls1" "rs = r # rs1"
    by (auto simp: bind_result_eq_Inr)
  from osc_advance_f32_fields [OF a] have p: "pan track1 = pan track" by simp
  show ?case
  proof (cases i)
    case 0
    with s g l r p res show ?thesis by simp
  next
    case (Suc j)
    with Suc.prems(2) have "j < n" by simp
    from Suc.IH [OF rec this] obtain track_i sample' lg rg where
      "osc_steps_f32 j track1 = Inr track_i" "osc_sample_f32 track_i = Inr sample'"
      "pan_gains_f32 (pan track1) = Inr (lg, rg)"
      "fmul sample' lg = Inr (ls1 ! j)" "fmul sample' rg = Inr (rs1 ! j)"
      by blast
    with a p res Suc show ?thesis by simp
  qed
qed

lemma generate_f32_facts:
  assumes "generate_f32 n track = Inr (track', ls, rs)"
  shows "length ls = n \<and> length rs = n
       \<and> effects track' = effects track \<and> effect_count track' = effect_count track
       \<and> peak_level track' = peak_level track \<and> rms_level track' = rms_level track"
  using assms
proof (induction n arbitrary: track ls rs)
  case 0
  then show ?case by simp
next
  case (Suc n)
  from Suc.prems obtain track1 l r ls1 rs1 where
    a: "osc_advance_f32 track = Inr track1"
    and rec: "generate_f32 n track1 = Inr (track', ls1, rs1)"
    and res: "ls = l # ls1" "rs = r # rs1"
    by (auto simp: bind_result_eq_Inr)
  from Suc.IH [OF rec] osc_advance_f32_fields [OF a] res show ?case by simp
qed

text \<open>An oscillator that stands still at the binary32 quarter turn (frequency 0), at full
  volume: every sample is \<open>0.3F\<close> times the gain.\<close>

lemma osc_sample_quarter_turn:
  "osc_sample_f32 (zero_track\<lparr>volume := 1, pan := p, phase := 13176795 / 8388608\<rparr>) = Inr FLT_0_3"
  by (simp add: osc_sample_f32_def fmul_def FLT_0_3_def)

lemma osc_advance_still:
  assumes "frequency track = 0" "phase track = 13176795 / 8388608"
  shows "osc_advance_f32 track = Inr track"
proof -
  have "osc_advance_f32 track = Inr (track\<lparr>phase := phase track\<rparr>)"
    unfolding osc_advance_f32_def assms
    by (simp add: fmul_def fdiv_def fadd_def MA_PI_f32_def SAMPLE_RATE_def)
  then show ?thesis by simp
qed

lemma generate_f32_period:
  assumes "pan_gains_f32 p = Inr (left_gain, right_gain)"
    and "fl (FLT_0_3 * left_gain) = Inr l" "fl (FLT_0_3 * right_gain) = Inr r"
  shows "generate_f32 n (zero_track\<lparr>volume := 1, pan := p, phase := 13176795 / 8388608\<rparr>)
           = Inr (zero_track\<lparr>volume := 1, pan := p, phase := 13176795 / 8388608\<rparr>,
                  replicate n l, replicate n r)"
proof (induction n)
  case 0
  then show ?case by simp
next
  case (Suc n)
  let ?T = "zero_track\<lparr>volume := 1, pan := p, phase := 13176795 / 8388608\<rparr>"
  have a: "osc_advance_f32 ?T = Inr ?T"
    by (rule osc_advance_still) (simp_all add: zero_track_def)
  show ?case
    unfolding generate_f32.simps osc_sample_quarter_turn a using assms Suc.IH
    by (simp add: fmul_def)
qed

lemma hard_right_left_sample:
  "fl (FLT_0_3 * f32_round (cos (13176795 / 8388608)))
     = Inr (f32_round (FLT_0_3 * f32_round (cos (13176795 / 8388608))))
   \<and> f32_round (FLT_0_3 * f32_round (cos (13176795 / 8388608))) < 0"
proof -
  define g where "g = f32_round (cos (13176795 / 8388608))"
  have g: "- (1 / 2 ^ 24) \<le> g" "g \<le> - (1 / 2 ^ 25)"
    using cosf_quarter_turn by (simp_all add: g_def)
  have "- (2 powi (- 25)) < FLT_0_3 * g" "FLT_0_3 * g \<le> - (2 powi (- 27))"
    using g by (simp_all add: FLT_0_3_def)
  from fl_normal_neg [OF this]
  have "fl (FLT_0_3 * g) = Inr (f32_round (FLT_0_3 * g))" "f32_round (FLT_0_3 * g) \<le> - (2 powi (- 27))"
    by simp_all
  then show ?thesis unfolding g_def by simp
qed

lemma fl_centre_sample [simp]: "fl (59709860780695 / 281474976710656) = Inr (3558985 / 16777216)"
  using fl_eq [of "- 3" "59709860780695 / 281474976710656" 14235940] by simp




subsection \<open>The meters in binary32\<close>

lemma mix_meter_f32_meters:
  assumes "mix_meter_f32 ls rs out track = Inr (out', track')" "length ls = length rs"
  shows "peak_level track' = (peak_of ls (fst (peak_level track)), peak_of rs (snd (peak_level track)))
       \<and> sum_squares_f32 ls (fst (rms_level track)) = Inr (fst (rms_level track'))
       \<and> sum_squares_f32 rs (snd (rms_level track)) = Inr (snd (rms_level track'))"
  using assms(2,1)
proof (induction ls rs arbitrary: out track out' rule: list_induct2)
  case Nil
  then show ?case by (simp add: peak_of_def)
next
  case (Cons l ls r rs)
  from Cons.prems obtain o0 o1 rest where out: "out = o0 # o1 # rest"
    by (cases out; cases "tl out") auto
  define pk where "pk = (max (fst (peak_level track)) \<bar>l\<bar>, max (snd (peak_level track)) \<bar>r\<bar>)"
  from Cons.prems obtain ll rms_left rr rms_right out1 where
    sq: "fmul l l = Inr ll" "fadd (fst (rms_level track)) ll = Inr rms_left"
      "fmul r r = Inr rr" "fadd (snd (rms_level track)) rr = Inr rms_right"
    and rec: "mix_meter_f32 ls rs rest (track\<lparr>peak_level := pk, rms_level := (rms_left, rms_right)\<rparr>)
               = Inr (out1, track')"
    unfolding out pk_def
    by (auto simp: Let_def bind_result_eq_Inr max_def split: if_splits)
  from Cons.IH [OF rec] sq show ?case
    by (simp add: pk_def peak_of_def)
qed

lemma sum_squares_f32_nonneg:
  assumes "sum_squares_f32 xs acc = Inr s" "0 \<le> acc"
  shows "0 \<le> s"
  using assms
proof (induction xs arbitrary: acc)
  case Nil
  then show ?case by simp
next
  case (Cons x xs)
  from Cons.prems(1) obtain xx acc1 where
    a: "fl (x * x) = Inr xx" "fl (acc + xx) = Inr acc1" and rec: "sum_squares_f32 xs acc1 = Inr s"
    by (auto simp: bind_result_eq_Inr fmul_def fadd_def)
  from fl_nonneg [OF a(1)] have "0 \<le> xx" by simp
  with fl_nonneg [OF a(2)] Cons.prems(2) have "0 \<le> acc1" by simp
  from Cons.IH [OF rec this] show ?case .
qed

lemma rms_f32_nonneg:
  assumes "rms_f32 xs n = Inr r"
  shows "0 \<le> r \<and> 0 < n"
proof -
  from assms obtain total count mean where
    t: "sum_squares_f32 xs 0 = Inr total" and c: "fl (real n) = Inr count"
    and m: "fdiv total count = Inr mean" and r: "sqrtf mean = Inr r"
    by (auto simp: rms_f32_def bind_result_eq_Inr)
  from sum_squares_f32_nonneg [OF t] have t0: "0 \<le> total" by simp
  from fl_nonneg [OF c] have c0: "0 \<le> count" by simp
  from m have c1: "count \<noteq> 0" and m': "fl (total / count) = Inr mean"
    by (auto simp: fdiv_def split: if_splits)
  from c c1 have n: "0 < n" by (cases "n = 0") auto
  from fl_nonneg [OF m'] t0 c0 have m0: "0 \<le> mean" by simp
  with r have "fl (sqrt mean) = Inr r" by (simp add: sqrtf_def)
  from fl_nonneg [OF this] m0 have "0 \<le> r" by simp
  with n show ?thesis by simp
qed

lemma gain_frames_f32_length:
  assumes "gain_frames_f32 effect ls rs = Inr (ls', rs')" "length ls = length rs"
  shows "length ls' = length ls \<and> length rs' = length rs"
  using assms(2,1)
proof (induction ls rs arbitrary: ls' rs' rule: list_induct2)
  case Nil
  then show ?case by simp
next
  case (Cons l ls r rs)
  from Cons.prems obtain l1 r1 ls1 rs1 where
    rec: "gain_frames_f32 effect ls rs = Inr (ls1, rs1)"
    and res: "ls' = l1 # ls1" "rs' = r1 # rs1"
    by (auto simp: bind_result_eq_Inr)
  from Cons.IH [OF rec] res show ?case by simp
qed

lemma apply_effects_f32_length:
  assumes "apply_effects_f32 es left right sl sr = Inr (left', right', sl', sr')"
    and "length left = length right"
  shows "length left' = length left \<and> length right' = length right"
  using assms
proof (induction es arbitrary: left right sl sr)
  case Nil
  then show ?case by simp
next
  case (Cons effect es)
  show ?case
  proof (cases "etype effect")
    case EFFECT_LOWPASS
    with Cons.prems obtain l1 r1 sl1 sr1 where
      f: "filter_frames process_lowpass_effect_f32 effect left right sl sr = Inr (l1, r1, sl1, sr1)"
      and rec: "apply_effects_f32 es l1 r1 sl1 sr1 = Inr (left', right', sl', sr')"
      by (auto simp: bind_result_eq_Inr)
    from filter_frames_length [OF f Cons.prems(2)] Cons.IH [OF rec] Cons.prems(2)
    show ?thesis by simp
  next
    case EFFECT_HIGHPASS
    with Cons.prems obtain l1 r1 sl1 sr1 where
      f: "filter_frames process_highpass_effect_f32 effect left right sl sr = Inr (l1, r1, sl1, sr1)"
      and rec: "apply_effects_f32 es l1 r1 sl1 sr1 = Inr (left', right', sl', sr')"
      by (auto simp: bind_result_eq_Inr)
    from filter_frames_length [OF f Cons.prems(2)] Cons.IH [OF rec] Cons.prems(2)
    show ?thesis by simp
  next
    case EFFECT_GAIN
    with Cons.prems obtain l1 r1 where
      f: "gain_frames_f32 effect left right = Inr (l1, r1)"
      and rec: "apply_effects_f32 es l1 r1 sl sr = Inr (left', right', sl', sr')"
      by (auto simp: bind_result_eq_Inr)
    from gain_frames_f32_length [OF f Cons.prems(2)] Cons.IH [OF rec] Cons.prems(2)
    show ?thesis by simp
  qed (use Cons in simp_all)
qed

lemma render_track_f32_facts:
  assumes "render_track_f32 track t n fs = Inr (track2, left, right, fs')"
  shows "length left = n \<and> length right = n
       \<and> peak_level track2 = (0, 0) \<and> rms_level track2 = (0, 0)"
proof -
  let ?track1 = "track\<lparr>peak_level := (0, 0), rms_level := (0, 0)\<rparr>"
  from assms obtain tl tr where g: "generate_f32 n ?track1 = Inr (track2, tl, tr)"
    by (auto simp: render_track_f32_def Let_def bind_result_eq_Inr split: if_splits)
  from generate_f32_facts [OF g] have len: "length tl = n" "length tr = n"
    and m: "peak_level track2 = (0, 0)" "rms_level track2 = (0, 0)" by simp_all
  show ?thesis
  proof (cases "effect_count track2 > 0")
    case False
    with assms g len m show ?thesis
      by (auto simp: render_track_f32_def Let_def split: if_splits)
  next
    case True
    with assms g obtain sl sr where
      a: "apply_effects_f32 (take (nat (effect_count track2)) (effects track2)) tl tr
            (fst fs ! t) (snd fs ! t) = Inr (left, right, sl, sr)"
      by (auto simp: render_track_f32_def Let_def process_track_effects_f32_def
          bind_result_eq_Inr split: if_splits)
    from apply_effects_f32_length [OF a] len have "length left = n" "length right = n" by simp_all
    with m show ?thesis by simp
  qed
qed

lemma finalize_rms_f32_meters:
  assumes "finalize_rms_f32 n track = Inr track'"
    and "sum_squares_f32 left 0 = Inr (fst (rms_level track))"
    and "sum_squares_f32 right 0 = Inr (snd (rms_level track))"
  shows "rms_f32 left n = Inr (fst (rms_level track'))
       \<and> rms_f32 right n = Inr (snd (rms_level track'))
       \<and> peak_level track' = peak_level track"
  using assms by (auto simp: finalize_rms_f32_def rms_f32_def bind_result_eq_Inr)

subsection \<open>A period of equal samples\<close>

lemma round_even_tie: "round_even (of_int f + 1 / 2) = (if even f then f else f + 1)"
proof -
  have "\<lfloor>of_int f + 1 / 2 :: real\<rfloor> = f" by (intro floor_unique) simp_all
  then show ?thesis by (simp add: round_even_def Let_def)
qed

lemma fl_eq_tie:
  assumes "2 powi e \<le> \<bar>x\<bar>" "\<bar>x\<bar> < 2 powi (e + 1)"
    and "x / 2 powi (e - 23) = of_int f + 1 / 2"
    and "- 126 \<le> e" "e \<le> 126"
  shows "fl x = Inr (of_int (if even f then f else f + 1) * 2 powi (e - 23))"
proof -
  define u :: real where "u = 2 powi (e - 23)"
  define m where "m = (if even f then f else f + 1)"
  have u: "0 < u" by (simp add: u_def)
  have e1: "2 powi (e + 1) = 2 ^ 24 * u"
    unfolding u_def by (simp add: power_int_diff power_int_add)
  have p: "0 < (2::real) powi e" by simp
  with assms(1) have "0 < \<bar>x\<bar>" by linarith
  then have x0: "x \<noteq> 0" by simp
  have "\<lfloor>log 2 \<bar>x\<bar>\<rfloor> = e" using assms(1,2) by (rule floor_log2)
  then have r: "f32_round x = of_int m * u"
    using x0 round_even_tie [of f] assms(3)
    by (simp add: f32_round_def Let_def u_def m_def)
  have "\<bar>x / u\<bar> < 2 ^ 24" using assms(2) u unfolding e1 by (simp add: field_simps)
  then have "\<bar>(of_int f :: real) + 1 / 2\<bar> < 2 ^ 24" using assms(3) by (simp add: u_def)
  then have "(of_int f :: real) < of_int (2 ^ 24)" "of_int (- (2 ^ 24) - 1) < (of_int f :: real)"
    by (simp_all add: abs_less_iff)
  then have "f < 2 ^ 24" "- (2 ^ 24) - 1 < f" by (simp_all only: of_int_less_iff)
  then have "\<bar>m\<bar> \<le> 2 ^ 24" by (auto simp: m_def)
  then have "\<bar>(of_int m :: real)\<bar> \<le> of_int (2 ^ 24)" by (metis of_int_abs of_int_le_iff)
  then have "\<bar>of_int m * u\<bar> \<le> 2 ^ 24 * u" using u by (simp add: abs_mult)
  also have "\<dots> = 2 powi (e + 1)" by (simp add: e1)
  also have "\<dots> \<le> FLT_MAX" using assms(5) by (intro FLT_MAX_ge) simp
  finally have a: "\<not> FLT_MAX < \<bar>f32_round x\<bar>" by (simp add: r)
  have "FLT_MIN \<le> \<bar>x\<bar>" using FLT_MIN_le [OF assms(4)] assms(1) by linarith
  then have b: "\<not> (x \<noteq> 0 \<and> \<bar>x\<bar> < FLT_MIN)" by simp
  show ?thesis using a b r by (simp add: fl_def u_def m_def)
qed

lemma sum_squares_f32_append:
  "sum_squares_f32 (xs @ ys) acc = bind_result (sum_squares_f32 xs acc) (sum_squares_f32 ys)"
proof (induction xs arbitrary: acc)
  case Nil
  then show ?case by simp
next
  case (Cons x xs)
  show ?case
  proof (cases "fmul x x")
    case (Inl a)
    then show ?thesis by simp
  next
    case (Inr xx)
    then show ?thesis using Cons.IH by (cases "fadd acc xx") simp_all
  qed
qed

lemma sum_squares_f32_step:
  assumes "fl (x * x) = Inr s" "fl (r + s) = Inr r'"
  shows "sum_squares_f32 (replicate 1 x) r = Inr r'"
  using assms by (simp add: fmul_def fadd_def)

text \<open>A run of additions of the same square within one binade: the sum is \<open>M\<close> units of
  the last place, and each addition moves it by the same number \<open>c\<close> of units, the square
  rounded to the unit.\<close>

lemma sum_squares_f32_run:
  assumes "fl (x * x) = Inr s" "0 < s"
    and "\<bar>s / 2 powi (e - 23) - of_int c\<bar> < 1 / 2"
    and "- 126 \<le> e" "e \<le> 126"
    and "2 ^ 23 \<le> M" "M + int n * c < 2 ^ 24"
  shows "sum_squares_f32 (replicate n x) (of_int M * 2 powi (e - 23))
           = Inr (of_int (M + int n * c) * 2 powi (e - 23))"
  using assms(6,7)
proof (induction n arbitrary: M)
  case 0
  then show ?case by simp
next
  case (Suc n)
  define u :: real where "u = 2 powi (e - 23)"
  have u: "0 < u" by (simp add: u_def)
  have e0: "2 powi e = 2 ^ 23 * u" and e1: "2 powi (e + 1) = 2 ^ 24 * u"
    unfolding u_def by (simp_all add: power_int_diff power_int_add)
  have su: "0 < s / u" using assms(2) u by simp
  with assms(3) have "- 1 < (of_int c :: real)" unfolding u_def by linarith
  then have "(of_int (- 1) :: real) < of_int c" by simp
  then have "- 1 < c" by (simp only: of_int_less_iff)
  then have c0: "0 \<le> c" by simp
  then have nc: "0 \<le> int n * c" by simp
  from Suc.prems(2) have t: "M + c + int n * c < 2 ^ 24" by (simp add: algebra_simps)
  with nc have "M + c < 2 ^ 24" by linarith
  then have "M + c \<le> 2 ^ 24 - 1" by simp
  then have "(of_int (M + c) :: real) \<le> of_int (2 ^ 24 - 1)" by (simp only: of_int_le_iff)
  then have mc: "of_int M + (of_int c :: real) \<le> 2 ^ 24 - 1" by simp
  from Suc.prems(1) have "(of_int (2 ^ 23) :: real) \<le> of_int M" by (simp only: of_int_le_iff)
  then have m0: "(2 ^ 23 :: real) \<le> of_int M" by simp
  have q: "(of_int M * u + s) / u = of_int M + s / u" using u by (simp add: field_simps)
  have pos: "0 < of_int M * u + s" using m0 u assms(2) by (simp add: add_pos_pos)
  have "2 ^ 23 * u \<le> of_int M * u" using m0 u by simp
  then have a: "2 powi e \<le> \<bar>of_int M * u + s\<bar>" using assms(2) pos unfolding e0 by linarith
  have "of_int M + s / u < 2 ^ 24" using mc assms(3) unfolding u_def by linarith
  then have "(of_int M * u + s) / u < 2 ^ 24" by (simp only: q)
  then have "of_int M * u + s < 2 ^ 24 * u" using u by (simp add: field_simps)
  then have b: "\<bar>of_int M * u + s\<bar> < 2 powi (e + 1)" using pos unfolding e1 by linarith
  have "\<bar>(of_int M * u + s) / u - of_int (M + c)\<bar> < 1 / 2"
    unfolding q using assms(3) by (simp add: u_def)
  from fl_eq [OF a [unfolded u_def] b [unfolded u_def] this [unfolded u_def] assms(4,5)]
  have step: "fl (of_int M * u + s) = Inr (of_int (M + c) * u)" by (simp add: u_def)
  from Suc.prems(1) c0 have "2 ^ 23 \<le> M + c" by simp
  from Suc.IH [OF this] t
  have "sum_squares_f32 (replicate n x) (of_int (M + c) * u)
          = Inr (of_int (M + c + int n * c) * u)"
    by (simp add: u_def)
  then show ?case using step assms(1)
    by (simp add: fmul_def fadd_def u_def algebra_simps)
qed

lemma equal_squares_512:
  assumes sq: "fl (x * x) = Inr (3019899 / 33554432)"
  shows "sum_squares_f32 (replicate 512 x) 0 = Inr (12079613 / 262144)"
proof -
  have "fl (0 + 3019899 / 33554432) = Inr (3019899 / 33554432)"
    using fl_eq [of "- 4" "0 + 3019899 / 33554432" 12079596] by simp
  from sum_squares_f32_step [OF sq this]
  have "sum_squares_f32 (replicate 1 x) (0) = Inr (3019899 / 33554432)" .
  then have c1: "sum_squares_f32 (replicate 1 x) 0 = Inr (3019899 / 33554432)" by simp
  have "fl (3019899 / 33554432 + 3019899 / 33554432) = Inr (3019899 / 16777216)"
    using fl_eq [of "- 3" "3019899 / 33554432 + 3019899 / 33554432" 12079596] by simp
  from sum_squares_f32_step [OF sq this]
  have "sum_squares_f32 (replicate 1 x) (3019899 / 33554432) = Inr (3019899 / 16777216)" .
  moreover have "replicate 2 x = replicate 1 x @ replicate 1 x"
    by (simp add: numeral_2_eq_2)
  ultimately have c2: "sum_squares_f32 (replicate 2 x) 0 = Inr (3019899 / 16777216)"
    by (simp only: sum_squares_f32_append c1 bind_result_Inr)
  have "fl (3019899 / 16777216 + 3019899 / 33554432) = Inr (9059697 / 33554432)"
    using fl_eq [of "- 2" "3019899 / 16777216 + 3019899 / 33554432" 9059697] by simp
  from sum_squares_f32_step [OF sq this]
  have "sum_squares_f32 (replicate 1 x) (3019899 / 16777216) = Inr (9059697 / 33554432)" .
  moreover have "replicate 3 x = replicate 2 x @ replicate 1 x"
    unfolding replicate_add [symmetric] by simp
  ultimately have c3: "sum_squares_f32 (replicate 3 x) 0 = Inr (9059697 / 33554432)"
    by (simp only: sum_squares_f32_append c2 bind_result_Inr)
  have "sum_squares_f32 (replicate 2 x) (9059697 / 33554432) = Inr (15099495 / 33554432)"
    using sum_squares_f32_run [OF sq, of "- 2" 3019899 9059697 2] by simp
  moreover have "replicate 5 x = replicate 3 x @ replicate 2 x"
    unfolding replicate_add [symmetric] by simp
  ultimately have c5: "sum_squares_f32 (replicate 5 x) 0 = Inr (15099495 / 33554432)"
    by (simp only: sum_squares_f32_append c3 bind_result_Inr)
  have "fl (15099495 / 33554432 + 3019899 / 33554432) = Inr (9059697 / 16777216)"
    using fl_eq [of "- 1" "15099495 / 33554432 + 3019899 / 33554432" 9059697] by simp
  from sum_squares_f32_step [OF sq this]
  have "sum_squares_f32 (replicate 1 x) (15099495 / 33554432) = Inr (9059697 / 16777216)" .
  moreover have "replicate 6 x = replicate 5 x @ replicate 1 x"
    unfolding replicate_add [symmetric] by simp
  ultimately have c6: "sum_squares_f32 (replicate 6 x) 0 = Inr (9059697 / 16777216)"
    by (simp only: sum_squares_f32_append c5 bind_result_Inr)
  have "fl (9059697 / 16777216 + 3019899 / 33554432) = Inr (5284823 / 8388608)"
    using fl_eq_tie [of "- 1" "9059697 / 16777216 + 3019899 / 33554432" 10569646] by simp
  from sum_squares_f32_step [OF sq this]
  have "sum_squares_f32 (replicate 1 x) (9059697 / 16777216) = Inr (5284823 / 8388608)" .
  moreover have "replicate 7 x = replicate 6 x @ replicate 1 x"
    unfolding replicate_add [symmetric] by simp
  ultimately have c7: "sum_squares_f32 (replicate 7 x) 0 = Inr (5284823 / 8388608)"
    by (simp only: sum_squares_f32_append c6 bind_result_Inr)
  have "fl (5284823 / 8388608 + 3019899 / 33554432) = Inr (3019899 / 4194304)"
    using fl_eq_tie [of "- 1" "5284823 / 8388608 + 3019899 / 33554432" 12079595] by simp
  from sum_squares_f32_step [OF sq this]
  have "sum_squares_f32 (replicate 1 x) (5284823 / 8388608) = Inr (3019899 / 4194304)" .
  moreover have "replicate 8 x = replicate 7 x @ replicate 1 x"
    unfolding replicate_add [symmetric] by simp
  ultimately have c8: "sum_squares_f32 (replicate 8 x) 0 = Inr (3019899 / 4194304)"
    by (simp only: sum_squares_f32_append c7 bind_result_Inr)
  have "fl (3019899 / 4194304 + 3019899 / 33554432) = Inr (6794773 / 8388608)"
    using fl_eq_tie [of "- 1" "3019899 / 4194304 + 3019899 / 33554432" 13589545] by simp
  from sum_squares_f32_step [OF sq this]
  have "sum_squares_f32 (replicate 1 x) (3019899 / 4194304) = Inr (6794773 / 8388608)" .
  moreover have "replicate 9 x = replicate 8 x @ replicate 1 x"
    unfolding replicate_add [symmetric] by simp
  ultimately have c9: "sum_squares_f32 (replicate 9 x) 0 = Inr (6794773 / 8388608)"
    by (simp only: sum_squares_f32_append c8 bind_result_Inr)
  have "fl (6794773 / 8388608 + 3019899 / 33554432) = Inr (1887437 / 2097152)"
    using fl_eq_tie [of "- 1" "6794773 / 8388608 + 3019899 / 33554432" 15099495] by simp
  from sum_squares_f32_step [OF sq this]
  have "sum_squares_f32 (replicate 1 x) (6794773 / 8388608) = Inr (1887437 / 2097152)" .
  moreover have "replicate 10 x = replicate 9 x @ replicate 1 x"
    unfolding replicate_add [symmetric] by simp
  ultimately have c10: "sum_squares_f32 (replicate 10 x) 0 = Inr (1887437 / 2097152)"
    by (simp only: sum_squares_f32_append c9 bind_result_Inr)
  have "fl (1887437 / 2097152 + 3019899 / 33554432) = Inr (8304723 / 8388608)"
    using fl_eq_tie [of "- 1" "1887437 / 2097152 + 3019899 / 33554432" 16609445] by simp
  from sum_squares_f32_step [OF sq this]
  have "sum_squares_f32 (replicate 1 x) (1887437 / 2097152) = Inr (8304723 / 8388608)" .
  moreover have "replicate 11 x = replicate 10 x @ replicate 1 x"
    unfolding replicate_add [symmetric] by simp
  ultimately have c11: "sum_squares_f32 (replicate 11 x) 0 = Inr (8304723 / 8388608)"
    by (simp only: sum_squares_f32_append c10 bind_result_Inr)
  have "fl (8304723 / 8388608 + 3019899 / 33554432) = Inr (4529849 / 4194304)"
    using fl_eq [of 0 "8304723 / 8388608 + 3019899 / 33554432" 9059698] by simp
  from sum_squares_f32_step [OF sq this]
  have "sum_squares_f32 (replicate 1 x) (8304723 / 8388608) = Inr (4529849 / 4194304)" .
  moreover have "replicate 12 x = replicate 11 x @ replicate 1 x"
    unfolding replicate_add [symmetric] by simp
  ultimately have c12: "sum_squares_f32 (replicate 12 x) 0 = Inr (4529849 / 4194304)"
    by (simp only: sum_squares_f32_append c11 bind_result_Inr)
  have "sum_squares_f32 (replicate 10 x) (4529849 / 4194304) = Inr (2076181 / 1048576)"
    using sum_squares_f32_run [OF sq, of 0 754975 9059698 10] by simp
  moreover have "replicate 22 x = replicate 12 x @ replicate 10 x"
    unfolding replicate_add [symmetric] by simp
  ultimately have c22: "sum_squares_f32 (replicate 22 x) 0 = Inr (2076181 / 1048576)"
    by (simp only: sum_squares_f32_append c12 bind_result_Inr)
  have "fl (2076181 / 1048576 + 3019899 / 33554432) = Inr (8682211 / 4194304)"
    using fl_eq [of 1 "2076181 / 1048576 + 3019899 / 33554432" 8682211] by simp
  from sum_squares_f32_step [OF sq this]
  have "sum_squares_f32 (replicate 1 x) (2076181 / 1048576) = Inr (8682211 / 4194304)" .
  moreover have "replicate 23 x = replicate 22 x @ replicate 1 x"
    unfolding replicate_add [symmetric] by simp
  ultimately have c23: "sum_squares_f32 (replicate 23 x) 0 = Inr (8682211 / 4194304)"
    by (simp only: sum_squares_f32_append c22 bind_result_Inr)
  have "sum_squares_f32 (replicate 21 x) (8682211 / 4194304) = Inr (8304719 / 2097152)"
    using sum_squares_f32_run [OF sq, of 1 377487 8682211 21] by simp
  moreover have "replicate 44 x = replicate 23 x @ replicate 21 x"
    unfolding replicate_add [symmetric] by simp
  ultimately have c44: "sum_squares_f32 (replicate 44 x) 0 = Inr (8304719 / 2097152)"
    by (simp only: sum_squares_f32_append c23 bind_result_Inr)
  have "fl (8304719 / 2097152 + 3019899 / 33554432) = Inr (8493463 / 2097152)"
    using fl_eq [of 2 "8304719 / 2097152 + 3019899 / 33554432" 8493463] by simp
  from sum_squares_f32_step [OF sq this]
  have "sum_squares_f32 (replicate 1 x) (8304719 / 2097152) = Inr (8493463 / 2097152)" .
  moreover have "replicate 45 x = replicate 44 x @ replicate 1 x"
    unfolding replicate_add [symmetric] by simp
  ultimately have c45: "sum_squares_f32 (replicate 45 x) 0 = Inr (8493463 / 2097152)"
    by (simp only: sum_squares_f32_append c44 bind_result_Inr)
  have "sum_squares_f32 (replicate 43 x) (8493463 / 2097152) = Inr (16609455 / 2097152)"
    using sum_squares_f32_run [OF sq, of 2 188744 8493463 43] by simp
  moreover have "replicate 88 x = replicate 45 x @ replicate 43 x"
    unfolding replicate_add [symmetric] by simp
  ultimately have c88: "sum_squares_f32 (replicate 88 x) 0 = Inr (16609455 / 2097152)"
    by (simp only: sum_squares_f32_append c45 bind_result_Inr)
  have "fl (16609455 / 2097152 + 3019899 / 33554432) = Inr (8399099 / 1048576)"
    using fl_eq [of 3 "16609455 / 2097152 + 3019899 / 33554432" 8399099] by simp
  from sum_squares_f32_step [OF sq this]
  have "sum_squares_f32 (replicate 1 x) (16609455 / 2097152) = Inr (8399099 / 1048576)" .
  moreover have "replicate 89 x = replicate 88 x @ replicate 1 x"
    unfolding replicate_add [symmetric] by simp
  ultimately have c89: "sum_squares_f32 (replicate 89 x) 0 = Inr (8399099 / 1048576)"
    by (simp only: sum_squares_f32_append c88 bind_result_Inr)
  have "sum_squares_f32 (replicate 88 x) (8399099 / 1048576) = Inr (16703835 / 1048576)"
    using sum_squares_f32_run [OF sq, of 3 94372 8399099 88] by simp
  moreover have "replicate 177 x = replicate 89 x @ replicate 88 x"
    unfolding replicate_add [symmetric] by simp
  ultimately have c177: "sum_squares_f32 (replicate 177 x) 0 = Inr (16703835 / 1048576)"
    by (simp only: sum_squares_f32_append c89 bind_result_Inr)
  have "fl (16703835 / 1048576 + 3019899 / 33554432) = Inr (8399103 / 524288)"
    using fl_eq [of 4 "16703835 / 1048576 + 3019899 / 33554432" 8399103] by simp
  from sum_squares_f32_step [OF sq this]
  have "sum_squares_f32 (replicate 1 x) (16703835 / 1048576) = Inr (8399103 / 524288)" .
  moreover have "replicate 178 x = replicate 177 x @ replicate 1 x"
    unfolding replicate_add [symmetric] by simp
  ultimately have c178: "sum_squares_f32 (replicate 178 x) 0 = Inr (8399103 / 524288)"
    by (simp only: sum_squares_f32_append c177 bind_result_Inr)
  have "sum_squares_f32 (replicate 177 x) (8399103 / 524288) = Inr (16751025 / 524288)"
    using sum_squares_f32_run [OF sq, of 4 47186 8399103 177] by simp
  moreover have "replicate 355 x = replicate 178 x @ replicate 177 x"
    unfolding replicate_add [symmetric] by simp
  ultimately have c355: "sum_squares_f32 (replicate 355 x) 0 = Inr (16751025 / 524288)"
    by (simp only: sum_squares_f32_append c178 bind_result_Inr)
  have "fl (16751025 / 524288 + 3019899 / 33554432) = Inr (8399105 / 262144)"
    using fl_eq [of 5 "16751025 / 524288 + 3019899 / 33554432" 8399105] by simp
  from sum_squares_f32_step [OF sq this]
  have "sum_squares_f32 (replicate 1 x) (16751025 / 524288) = Inr (8399105 / 262144)" .
  moreover have "replicate 356 x = replicate 355 x @ replicate 1 x"
    unfolding replicate_add [symmetric] by simp
  ultimately have c356: "sum_squares_f32 (replicate 356 x) 0 = Inr (8399105 / 262144)"
    by (simp only: sum_squares_f32_append c355 bind_result_Inr)
  have "sum_squares_f32 (replicate 156 x) (8399105 / 262144) = Inr (12079613 / 262144)"
    using sum_squares_f32_run [OF sq, of 5 23593 8399105 156] by simp
  moreover have "replicate 512 x = replicate 356 x @ replicate 156 x"
    unfolding replicate_add [symmetric] by simp
  ultimately have c512: "sum_squares_f32 (replicate 512 x) 0 = Inr (12079613 / 262144)"
    by (simp only: sum_squares_f32_append c356 bind_result_Inr)
  show ?thesis by (rule c512)
qed

lemma mix_meter_f32_equal:
  assumes "fl x = Inr x" "0 < x"
    and "sum_squares_f32 (replicate n x) r = Inr r'"
    and "rms_level track = (r, 0)" "peak_level track = (p, 0)" "p = 0 \<or> p = x"
  shows "mix_meter_f32 (replicate n x) (replicate n 0) (replicate (2 * n) 0) track
           = Inr (concat (replicate n [x, 0]),
                  track\<lparr>peak_level := (if n = 0 then p else x, 0), rms_level := (r', 0)\<rparr>)"
  using assms(3-6)
proof (induction n arbitrary: track r p)
  case 0
  then show ?case by simp
next
  case (Suc n)
  from Suc.prems(1) obtain xx r1 where
    a: "fl (x * x) = Inr xx" "fl (r + xx) = Inr r1"
    and rec: "sum_squares_f32 (replicate n x) r1 = Inr r'"
    by (auto simp: bind_result_eq_Inr fmul_def fadd_def)
  define track2 where "track2 = track\<lparr>peak_level := (x, 0), rms_level := (r1, 0)\<rparr>"
  have t2: "rms_level track2 = (r1, 0)" "peak_level track2 = (x, 0)" by (simp_all add: track2_def)
  note IH = Suc.IH [OF rec t2 disjI2 [OF refl]]
  have out: "replicate (2 * Suc n) (0::real) = 0 # 0 # replicate (2 * n) 0" by simp
  have tr: "(if \<bar>x\<bar> > fst (peak_level track)
             then track\<lparr>peak_level := (\<bar>x\<bar>, snd (peak_level track))\<rparr> else track)
            = track\<lparr>peak_level := (x, 0)\<rparr>"
  proof (cases "p < x")
    case True
    then show ?thesis using Suc.prems(3) assms(2) by simp
  next
    case False
    with Suc.prems(4) have "p = x" using assms(2) by auto
    with Suc.prems(3) have "peak_level track = (x, 0)" by simp
    then have "track\<lparr>peak_level := (x, 0)\<rparr> = track\<lparr>peak_level := peak_level track\<rparr>" by simp
    then have "track\<lparr>peak_level := (x, 0)\<rparr> = track" by simp
    then show ?thesis using Suc.prems(3) False assms(2) by simp
  qed
  have tr2: "(if \<bar>0::real\<bar> > snd (peak_level (track\<lparr>peak_level := (x, 0)\<rparr>))
              then (track\<lparr>peak_level := (x, 0)\<rparr>)\<lparr>peak_level :=
                     (fst (peak_level (track\<lparr>peak_level := (x, 0)\<rparr>)), \<bar>0::real\<bar>)\<rparr>
              else track\<lparr>peak_level := (x, 0)\<rparr>)
             = track\<lparr>peak_level := (x, 0)\<rparr>"
    by simp
  have "mix_meter_f32 (replicate (Suc n) x) (replicate (Suc n) 0) (replicate (2 * Suc n) 0) track
          = bind_result (mix_meter_f32 (replicate n x) (replicate n 0) (replicate (2 * n) 0) track2)
              (\<lambda>(out', track'). Inr (x # 0 # out', track'))"
    unfolding out replicate_Suc mix_meter_f32.simps Let_def tr tr2
    using assms(1) a Suc.prems(2)
    by (simp add: fadd_def fmul_def track2_def)
  then show ?case unfolding IH by (simp add: track2_def)
qed

lemma fl_512 [simp]: "fl 512 = Inr 512"
  using fl_eq [of 9 512 8388608] by simp

lemma fl_mean_square [simp]: "fl (12079613 / 134217728) = Inr (12079613 / 134217728)"
  using fl_eq [of "- 4" "12079613 / 134217728" 12079613] by simp

lemma sqrtf_mean_square: "sqrtf (12079613 / 134217728) = Inr (10066337 / 33554432)"
proof -
  define q :: real where "q = 12079613 / 134217728"
  have lo: "20132673 / 67108864 < sqrt q"
    by (rule real_less_rsqrt) (simp add: q_def power2_eq_square)
  have hi: "sqrt q < 20132675 / 67108864"
    by (rule real_less_lsqrt) (simp_all add: q_def power2_eq_square)
  have a: "2 powi (- 2) \<le> \<bar>sqrt q\<bar>" "\<bar>sqrt q\<bar> < 2 powi (- 2 + 1)"
    using lo hi by simp_all
  have "\<bar>sqrt q / 2 powi (- 2 - 23) - of_int 10066337\<bar> < 1 / 2"
    unfolding abs_less_iff using lo hi by simp
  from fl_eq [OF a this] show ?thesis by (simp add: sqrtf_def q_def)
qed

text \<open>A period of 512 frames of a track at full volume, panned hard left, whose
  oscillator stands at the binary32 quarter turn: every left sample is \<open>0.3F\<close>, every
  right sample \<open>0\<close>.\<close>

lemma equal_period_render:
  "render_track_f32 (zero_track\<lparr>volume := 1, pan := - 1, phase := 13176795 / 8388608\<rparr>) 0 512
       zero_filter_state
     = Inr (zero_track\<lparr>volume := 1, pan := - 1, phase := 13176795 / 8388608\<rparr>,
            replicate 512 FLT_0_3, replicate 512 0, zero_filter_state)"
proof -
  have one: "fl (FLT_0_3 * 1) = Inr FLT_0_3" and zero: "fl (FLT_0_3 * 0) = Inr 0"
    by (simp_all add: FLT_0_3_def)
  note g = generate_f32_period [OF pan_gains_left one zero, of 512]
  have z: "zero_track\<lparr>volume := 1, pan := - 1, phase := 13176795 / 8388608,
             peak_level := (0, 0), rms_level := (0, 0)\<rparr>
           = zero_track\<lparr>volume := 1, pan := - 1, phase := 13176795 / 8388608\<rparr>"
    by (simp add: zero_track_def)
  show ?thesis
    unfolding render_track_f32_def Let_def z g
    by (simp add: BUFFER_SIZE_def zero_track_def)
qed

lemma sqrtf_zero [simp]: "sqrtf 0 = Inr 0"
  by (simp add: sqrtf_def)

lemma equal_period_body:
  "track_body_f32 (zero_track\<lparr>volume := 1, pan := - 1, phase := 13176795 / 8388608\<rparr>) 0 512
       zero_filter_state (replicate 1024 0)
     = Inr (zero_track\<lparr>volume := 1, pan := - 1, phase := 13176795 / 8388608,
              peak_level := (FLT_0_3, 0), rms_level := (10066337 / 33554432, 0)\<rparr>,
            zero_filter_state, concat (replicate 512 [FLT_0_3, 0]))"
proof -
  let ?T = "zero_track\<lparr>volume := 1, pan := - 1, phase := 13176795 / 8388608\<rparr>"
  have sq: "fl (FLT_0_3 * FLT_0_3) = Inr (3019899 / 33554432)"
    using fl_eq [of "- 4" "FLT_0_3 * FLT_0_3" 12079596] by (simp add: FLT_0_3_def)
  have x: "fl FLT_0_3 = Inr FLT_0_3" "0 < FLT_0_3" by (simp_all add: FLT_0_3_def)
  have m: "rms_level ?T = (0, 0)" "peak_level ?T = (0, 0)" by (simp_all add: zero_track_def)
  from mix_meter_f32_equal [OF x equal_squares_512 [OF sq] m disjI1 [OF refl]]
  have mix: "mix_meter_f32 (replicate 512 FLT_0_3) (replicate 512 0) (replicate 1024 0) ?T
      = Inr (concat (replicate 512 [FLT_0_3, 0]),
             ?T\<lparr>peak_level := (FLT_0_3, 0), rms_level := (12079613 / 262144, 0)\<rparr>)"
    by simp
  have fin: "finalize_rms_f32 512 (?T\<lparr>peak_level := (FLT_0_3, 0), rms_level := (12079613 / 262144, 0)\<rparr>)
      = Inr (?T\<lparr>peak_level := (FLT_0_3, 0), rms_level := (10066337 / 33554432, 0)\<rparr>)"
    by (simp add: finalize_rms_f32_def fdiv_def sqrtf_mean_square)
  show ?thesis
    unfolding track_body_f32_def equal_period_render
    by (simp add: mix fin)
qed




text \<open>
  Where the track loop leaves the finite numbers. For an empty period the quotient
  \<open>rms_level / frame_count\<close> is \<open>0 / 0\<close>, and the C code stores a NaN in \<open>rms_level\<close>;
  an enabled lowpass filter with \<open>cutoff = -1\<close> divides by zero in its first frame and
  feeds a NaN to the meters. The embedding ends both executions with \<open>Non_Finite\<close>.
\<close>

lemma empty_period_not_finite:
  assumes "effect_count track = 0"
  shows "track_body_f32 track t 0 fs out = Inl Non_Finite"
  using assms
  by (simp add: track_body_f32_def render_track_f32_def BUFFER_SIZE_def finalize_rms_f32_def
      fdiv_def)

lemma lowpass_cutoff_not_finite:
  assumes "enabled effect" "cutoff effect = - 1"
  shows "process_lowpass_effect_f32 sample effect state = Inl Non_Finite"
  using assms by (simp add: process_lowpass_effect_f32_def fadd_def fdiv_def)

end
